theory Spec2Isabelle
  imports Main "HOL-Library.Word" "HOL-Library.Monad_Syntax"
begin

section \<open>Values and heap objects\<close>

text \<open>
  The virtual machine of \<^verbatim>\<open>vm.c\<close> is embedded as pure functions over an explicit
  machine state. A result of type \<open>'a option\<close> is \<open>None\<close> exactly where the C code has
  no defined behaviour: an access outside an array, an accessor macro applied to the
  wrong variant of a value, a null or dangling pointer. Nothing is reported to the user
  in that case, so \<open>None\<close> is never an error message; reported errors are ordinary
  results that carry the text written to \<^verbatim>\<open>stderr\<close>.
\<close>

text \<open>
  Modelled from the spec: \<open>Value\<close> and the kinds of heap objects (\<^verbatim>\<open>value.h\<close> and
  \<^verbatim>\<open>object.h\<close> are not part of the sources) follow section 3 of the specification: a
  value is nil, a boolean, a number or a reference to a string, function, native,
  closure or upvalue object. A number is the bit pattern of a C \<^verbatim>\<open>double\<close>; the
  floating point operations on it are parameters (record \<open>host\<close>). A string object is
  its byte sequence: all strings are interned, so the address of a string object and
  its contents determine each other. Function, native, closure and upvalue objects are
  addresses into typed heaps.
\<close>

type_synonym double = "64 word"

datatype Obj =
    OBJ_STRING string
  | OBJ_FUNCTION nat
  | OBJ_NATIVE nat
  | OBJ_CLOSURE nat
  | OBJ_UPVALUE nat

datatype Value =
    NIL_VAL
  | BOOL_VAL bool
  | NUMBER_VAL double
  | OBJ_VAL Obj

text \<open>The result of \<open>interpret\<close>, as \<^verbatim>\<open>vm.h\<close> declares it.\<close>

datatype InterpretResult =
    INTERPRET_OK
  | INTERPRET_COMPILE_ERROR
  | INTERPRET_RUNTIME_ERROR

text \<open>
  The opcodes are the labels of the \<open>switch\<close> in \<open>run\<close>. Their numbering
  (\<^verbatim>\<open>chunk.h\<close>, not part of the sources) is a parameter of the machine.
\<close>

datatype OpCode =
    OP_CONSTANT | OP_NIL | OP_TRUE | OP_FALSE | OP_POP
  | OP_GET_LOCAL | OP_SET_LOCAL
  | OP_GET_GLOBAL | OP_DEFINE_GLOBAL | OP_SET_GLOBAL
  | OP_GET_UPVALUE | OP_SET_UPVALUE
  | OP_EQUAL | OP_GREATER | OP_LESS
  | OP_ADD | OP_SUBTRACT | OP_MULTIPLY | OP_DIVIDE
  | OP_NOT | OP_NEGATE | OP_PRINT
  | OP_JUMP | OP_JUMP_IF_FALSE | OP_LOOP
  | OP_CALL | OP_CLOSURE | OP_CLOSE_UPVALUE | OP_RETURN

text \<open>
  Modelled from the spec: the type predicates and accessors of \<^verbatim>\<open>value.h\<close> and
  \<^verbatim>\<open>object.h\<close> (not part of the sources) are total on their own variant and
  unspecified otherwise. An accessor on the wrong variant is \<open>None\<close> here.
\<close>

fun IS_NIL :: "Value \<Rightarrow> bool" where
  "IS_NIL NIL_VAL = True"
| "IS_NIL _ = False"

fun IS_BOOL :: "Value \<Rightarrow> bool" where
  "IS_BOOL (BOOL_VAL _) = True"
| "IS_BOOL _ = False"

fun IS_NUMBER :: "Value \<Rightarrow> bool" where
  "IS_NUMBER (NUMBER_VAL _) = True"
| "IS_NUMBER _ = False"

fun IS_OBJ :: "Value \<Rightarrow> bool" where
  "IS_OBJ (OBJ_VAL _) = True"
| "IS_OBJ _ = False"

fun IS_STRING :: "Value \<Rightarrow> bool" where
  "IS_STRING (OBJ_VAL (OBJ_STRING _)) = True"
| "IS_STRING _ = False"

fun AS_BOOL :: "Value \<Rightarrow> bool option" where
  "AS_BOOL (BOOL_VAL b) = Some b"
| "AS_BOOL _ = None"

fun AS_NUMBER :: "Value \<Rightarrow> double option" where
  "AS_NUMBER (NUMBER_VAL d) = Some d"
| "AS_NUMBER _ = None"

fun AS_STRING :: "Value \<Rightarrow> string option" where
  "AS_STRING (OBJ_VAL (OBJ_STRING s)) = Some s"
| "AS_STRING _ = None"

fun AS_FUNCTION :: "Value \<Rightarrow> nat option" where
  "AS_FUNCTION (OBJ_VAL (OBJ_FUNCTION f)) = Some f"
| "AS_FUNCTION _ = None"

text \<open>
  Modelled from the spec: a chunk (\<^verbatim>\<open>chunk.h\<close>, not part of the sources) is a byte
  vector of code, a parallel vector of source lines, and a constant pool; a function
  object (\<^verbatim>\<open>object.h\<close>) has an arity, an upvalue count, a chunk and an optional name.
\<close>

record Chunk =
  code :: "8 word list"
  lines :: "int list"
  constants :: "Value list"

record ObjFunction =
  arity :: int
  upvalueCount :: nat
  chunk :: Chunk
  name :: "string option"

text \<open>
  Modelled from the spec: an upvalue object (\<^verbatim>\<open>object.h\<close>, not part of the sources)
  has the fields \<open>location\<close>, \<open>closed\<close> and \<open>next\<close> that \<^verbatim>\<open>vm.c\<close> uses. Its
  \<open>location\<close> points either at a slot of the operand stack (the upvalue is open) or
  at the upvalue's own \<open>closed\<close> field. A closure object has a function, an array of
  upvalue pointers and the length of that array.
\<close>

datatype Location = Slot int | Closed

record ObjUpvalue =
  location :: Location
  closed :: Value
  "next" :: "nat option"

record ObjClosure =
  "function" :: nat
  upvalues :: "nat option list"
  upvalueCount :: nat

record CallFrame =
  closure :: nat
  ip :: nat
  slots :: int

section \<open>The machine state\<close>

text \<open>
  \<open>frames\<close>, \<open>frameCount\<close>, \<open>stack\<close>, \<open>stackTop\<close>, \<open>globals\<close> and \<open>openUpvalues\<close>
  are the fields of the C struct \<open>VM\<close>. Pointers into \<open>vm.stack\<close> are integer
  offsets from its first slot; the array has the slots \<open>0 \<le> i < STACK_MAX\<close>. A frame's
  \<open>ip\<close> is an offset into the code of its closure's function. The three heaps hold
  the objects that the C code reaches through \<open>ObjFunction*\<close>, \<open>ObjClosure*\<close> and
  \<open>ObjUpvalue*\<close>; an address is an index, and allocation appends. \<open>out\<close> lists the
  values handed to \<open>printValue\<close> by \<open>OP_PRINT\<close>, \<open>err\<close> is the text written to
  \<^verbatim>\<open>stderr\<close>. The intern table \<open>vm.strings\<close> and the allocation list \<open>vm.objects\<close>
  have no counterpart: strings are compared by content and nothing is freed while the
  machine runs.
\<close>

text \<open>
  Modelled from the spec: the type \<open>Table\<close> of \<open>vm.globals\<close> (\<^verbatim>\<open>table.h\<close> and
  \<^verbatim>\<open>table.c\<close> are not part of the sources) is a hash table keyed by interned strings;
  here it is the finite map from names to values that the table represents.
\<close>

record VM =
  frames :: "nat \<Rightarrow> CallFrame"
  frameCount :: nat
  stack :: "int \<Rightarrow> Value"
  stackTop :: int
  globals :: "string \<rightharpoonup> Value"
  openUpvalues :: "nat option"
  heap_functions :: "ObjFunction list"
  heap_closures :: "ObjClosure list"
  heap_upvalues :: "ObjUpvalue list"
  out :: "Value list"
  err :: string

text \<open>
  What the machine takes from its surroundings: the numbering of the opcodes
  (\<^verbatim>\<open>chunk.h\<close>), the arithmetic of C doubles, and the native functions, each a
  function of the argument count and of the argument values it is handed. The one
  native of \<^verbatim>\<open>vm.c\<close>, \<open>clockNative\<close>, ignores its arguments and reads the
  processor time, which the machine state does not hold; nothing below depends on
  what a native returns.
\<close>

record host =
  decode :: "8 word \<Rightarrow> OpCode option"
  fadd :: "double \<Rightarrow> double \<Rightarrow> double"
  fsub :: "double \<Rightarrow> double \<Rightarrow> double"
  fmul :: "double \<Rightarrow> double \<Rightarrow> double"
  fdiv :: "double \<Rightarrow> double \<Rightarrow> double"
  fneg :: "double \<Rightarrow> double"
  fgreater :: "double \<Rightarrow> double \<Rightarrow> bool"
  fless :: "double \<Rightarrow> double \<Rightarrow> bool"
  feq :: "double \<Rightarrow> double \<Rightarrow> bool"
  natives :: "nat \<Rightarrow> int \<Rightarrow> Value list \<Rightarrow> Value"

definition FRAMES_MAX :: nat where
  "FRAMES_MAX = 64"

text \<open>
  Modelled from the spec: \<open>UINT8_COUNT\<close> (\<^verbatim>\<open>common.h\<close>, not part of the sources) is
  \<open>256\<close>; the specification gives the operand stack \<open>64 * 256\<close> slots.
\<close>

definition UINT8_COUNT :: nat where
  "UINT8_COUNT = 256"

definition STACK_MAX :: int where
  "STACK_MAX = int (FRAMES_MAX * UINT8_COUNT)"

definition deref :: "'a list \<Rightarrow> nat \<Rightarrow> 'a option" where
  "deref heap p = (if p < length heap then Some (heap ! p) else None)"

definition in_stack :: "int \<Rightarrow> bool" where
  "in_stack i \<longleftrightarrow> 0 \<le> i \<and> i < STACK_MAX"

section \<open>Stack primitives\<close>

text \<open>
  \<open>push\<close> stores at \<open>stackTop\<close> and advances it; it checks no bound. A store
  outside \<open>vm.stack\<close> is undefined behaviour.
\<close>

definition push :: "Value \<Rightarrow> VM \<Rightarrow> VM option" where
  "push v vm =
     (if in_stack (stackTop vm)
      then Some (vm\<lparr>stack := (stack vm)(stackTop vm := v), stackTop := stackTop vm + 1\<rparr>)
      else None)"

definition pop :: "VM \<Rightarrow> (Value \<times> VM) option" where
  "pop vm =
     (let top = stackTop vm - 1
      in if in_stack top then Some (stack vm top, vm\<lparr>stackTop := top\<rparr>) else None)"

definition peek :: "int \<Rightarrow> VM \<Rightarrow> Value option" where
  "peek distance vm =
     (let i = stackTop vm - 1 - distance
      in if in_stack i then Some (stack vm i) else None)"

definition resetStack :: "VM \<Rightarrow> VM" where
  "resetStack vm = vm\<lparr>stackTop := 0, frameCount := 0, openUpvalues := None\<rparr>"

section \<open>Runtime errors\<close>

text \<open>The conversion \<^verbatim>\<open>%d\<close> of \<open>printf\<close>.\<close>

fun digits :: "nat \<Rightarrow> string" where
  "digits n =
     (if n < 10 then [''0123456789'' ! n]
      else digits (n div 10) @ [''0123456789'' ! (n mod 10)])"

declare digits.simps [simp del]

definition show_int :: "int \<Rightarrow> string" where
  "show_int i = (if i < 0 then CHR ''-'' # digits (nat (- i)) else digits (nat i))"

text \<open>
  The loop of \<open>runtimeError\<close> over the active frames, from index \<open>n - 1\<close> down to
  \<open>0\<close>. The instruction index is \<open>ip - 1\<close> in \<open>size_t\<close>: for \<open>ip = 0\<close> it wraps to
  an index outside every line table.
\<close>

fun stackTrace :: "VM \<Rightarrow> nat \<Rightarrow> string option" where
  "stackTrace vm 0 = Some []"
| "stackTrace vm (Suc i) =
     (if FRAMES_MAX \<le> i then None
      else do {
        let frame = frames vm i;
        cl \<leftarrow> deref (heap_closures vm) (closure frame);
        fn \<leftarrow> deref (heap_functions vm) (function cl);
        line \<leftarrow> (if ip frame = 0 then None else deref (lines (chunk fn)) (ip frame - 1));
        rest \<leftarrow> stackTrace vm i;
        Some (''[line '' @ show_int line @ ''] in ''
              @ (case name fn of
                   None \<Rightarrow> ''script\<newline>''
                 | Some chars \<Rightarrow> chars @ ''()\<newline>'')
              @ rest)
      })"

text \<open>
  \<open>runtimeError\<close> takes the message as \<open>vfprintf\<close> formats it; the call sites build
  it from the format string and its arguments.
\<close>

definition runtimeError :: "string \<Rightarrow> VM \<Rightarrow> VM option" where
  "runtimeError msg vm = do {
     tr \<leftarrow> stackTrace vm (frameCount vm);
     Some (resetStack (vm\<lparr>err := err vm @ msg @ ''\<newline>'' @ tr\<rparr>))
   }"

text \<open>
  The machine that \<open>runtimeError\<close> leaves behind once it has written the message
  \<open>msg\<close> and the stack trace \<open>tr\<close>.
\<close>

definition reported :: "string \<Rightarrow> string \<Rightarrow> VM \<Rightarrow> VM" where
  "reported msg tr vm = resetStack (vm\<lparr>err := err vm @ msg @ ''\<newline>'' @ tr\<rparr>)"

text \<open>
  The line that the stack trace prints for the frame with index \<open>i\<close>, as the
  specification words it: the line of the instruction before the frame's \<open>ip\<close>, then
  the function's name followed by \<open>()\<close>, or \<open>script\<close> for a function without a name.
\<close>

definition trace_line :: "VM \<Rightarrow> nat \<Rightarrow> string option" where
  "trace_line vm i = do {
     cl \<leftarrow> deref (heap_closures vm) (closure (frames vm i));
     fn \<leftarrow> deref (heap_functions vm) (function cl);
     line \<leftarrow> (if ip (frames vm i) = 0 then None
              else deref (lines (chunk fn)) (ip (frames vm i) - 1));
     Some (''[line '' @ show_int line @ ''] in ''
           @ (case name fn of None \<Rightarrow> ''script'' | Some chars \<Rightarrow> chars @ ''()'')
           @ ''\<newline>'')
   }"

section \<open>Calls\<close>

definition call :: "nat \<Rightarrow> int \<Rightarrow> VM \<Rightarrow> (bool \<times> VM) option" where
  "call c argCount vm = do {
     cl \<leftarrow> deref (heap_closures vm) c;
     fn \<leftarrow> deref (heap_functions vm) (function cl);
     if argCount \<noteq> arity fn then do {
       vm' \<leftarrow> runtimeError (''Expected '' @ show_int (arity fn) @ '' arguments but got ''
                              @ show_int argCount @ ''.'') vm;
       Some (False, vm')
     }
     else if frameCount vm = FRAMES_MAX then do {
       vm' \<leftarrow> runtimeError ''Stack overflow.'' vm;
       Some (False, vm')
     }
     else if FRAMES_MAX < frameCount vm then None
     else
       let base = stackTop vm - argCount - 1
       in if 0 \<le> base \<and> base \<le> STACK_MAX
          then Some (True, vm\<lparr>frames := (frames vm)(frameCount vm :=
                                   \<lparr>closure = c, ip = 0, slots = base\<rparr>),
                               frameCount := frameCount vm + 1\<rparr>)
          else None
   }"

text \<open>
  A native is handed \<open>argCount\<close> and a pointer to the first argument,
  \<open>vm.stackTop - argCount\<close>; the model hands it the values of the \<open>argCount\<close> slots
  from there.
\<close>

definition callValue :: "host \<Rightarrow> Value \<Rightarrow> int \<Rightarrow> VM \<Rightarrow> (bool \<times> VM) option" where
  "callValue h callee argCount vm =
     (case callee of
        OBJ_VAL (OBJ_CLOSURE c) \<Rightarrow> call c argCount vm
      | OBJ_VAL (OBJ_NATIVE n) \<Rightarrow> do {
          let result = natives h n argCount
                         (map (stack vm) [stackTop vm - argCount .. stackTop vm - 1]);
          vm' \<leftarrow> push result (vm\<lparr>stackTop := stackTop vm - (argCount + 1)\<rparr>);
          Some (True, vm')
        }
      | _ \<Rightarrow> do {
          vm' \<leftarrow> runtimeError ''Can only call functions and classes.'' vm;
          Some (False, vm')
        })"

section \<open>Upvalues\<close>

fun slot_of :: "Location \<Rightarrow> int option" where
  "slot_of (Slot i) = Some i"
| "slot_of Closed = None"

text \<open>
  The search loop of \<open>captureUpvalue\<close>: it returns the final values of
  \<open>prevUpvalue\<close> and \<open>upvalue\<close>. The order comparison of \<open>upvalue->location\<close> with
  \<open>local\<close> is defined only between pointers into the stack. The loop follows \<open>next\<close>
  pointers and need not end on a cyclic list; not returning is \<open>None\<close> as well.
\<close>

partial_function (option) captureWalk ::
  "ObjUpvalue list \<Rightarrow> int \<Rightarrow> nat option \<Rightarrow> nat option \<Rightarrow> (nat option \<times> nat option) option"
where
  "captureWalk heap local prevUpvalue upvalue =
     (if upvalue = None then Some (prevUpvalue, None)
      else do {
        p \<leftarrow> upvalue;
        u \<leftarrow> deref heap p;
        l \<leftarrow> slot_of (location u);
        if l > local then captureWalk heap local (Some p) (next u)
        else Some (prevUpvalue, Some p)
      })"

declare captureWalk.simps [code]

text \<open>
  Modelled from the spec: \<open>newUpvalue\<close> (\<^verbatim>\<open>object.c\<close>, not part of the sources)
  allocates an open upvalue for the slot, with \<open>closed\<close> nil and no successor.
\<close>

definition newUpvalue :: "int \<Rightarrow> ObjUpvalue" where
  "newUpvalue slot = \<lparr>location = Slot slot, closed = NIL_VAL, next = None\<rparr>"

definition captureUpvalue :: "int \<Rightarrow> VM \<Rightarrow> (nat \<times> VM) option" where
  "captureUpvalue local vm = do {
     (prevUpvalue, upvalue) \<leftarrow> captureWalk (heap_upvalues vm) local None (openUpvalues vm);
     found \<leftarrow> (case upvalue of
                 None \<Rightarrow> Some False
               | Some p \<Rightarrow> do {
                   u \<leftarrow> deref (heap_upvalues vm) p;
                   Some (location u = Slot local)
                 });
     if found then map_option (\<lambda>p. (p, vm)) upvalue
     else
       let createdUpvalue = length (heap_upvalues vm);
           heap = heap_upvalues vm @ [(newUpvalue local)\<lparr>next := upvalue\<rparr>]
       in (case prevUpvalue of
             None \<Rightarrow>
               Some (createdUpvalue,
                     vm\<lparr>heap_upvalues := heap, openUpvalues := Some createdUpvalue\<rparr>)
           | Some q \<Rightarrow>
               Some (createdUpvalue,
                     vm\<lparr>heap_upvalues := heap[q := (heap ! q)\<lparr>next := Some createdUpvalue\<rparr>]\<rparr>))
   }"

partial_function (option) closeUpvalues :: "int \<Rightarrow> VM \<Rightarrow> VM option" where
  "closeUpvalues last' vm =
     (if openUpvalues vm = None then Some vm
      else do {
        p \<leftarrow> openUpvalues vm;
        upvalue \<leftarrow> deref (heap_upvalues vm) p;
        l \<leftarrow> slot_of (location upvalue);
        if l \<ge> last' then
          if in_stack l then
            closeUpvalues last'
              (vm\<lparr>heap_upvalues :=
                     (heap_upvalues vm)[p := upvalue\<lparr>closed := stack vm l, location := Closed\<rparr>],
                   openUpvalues := next upvalue\<rparr>)
          else None
        else Some vm
      })"

declare closeUpvalues.simps [code]

section \<open>The dispatch loop\<close>

definition isFalsey :: "Value \<Rightarrow> bool" where
  "isFalsey v \<longleftrightarrow> IS_NIL v \<or> (IS_BOOL v \<and> AS_BOOL v = Some False)"

text \<open>
  \<open>takeString\<close> interns the new byte sequence; with strings compared by content
  the result is the concatenation itself.
\<close>

definition concatenate :: "VM \<Rightarrow> VM option" where
  "concatenate vm = do {
     (bv, vm1) \<leftarrow> pop vm;
     b \<leftarrow> AS_STRING bv;
     (av, vm2) \<leftarrow> pop vm1;
     a \<leftarrow> AS_STRING av;
     push (OBJ_VAL (OBJ_STRING (a @ b))) vm2
   }"

text \<open>
  Modelled from the spec: \<open>valuesEqual\<close> (\<^verbatim>\<open>value.c\<close>, not part of the sources)
  compares nil with nil, booleans and numbers by payload, objects by identity.
\<close>

fun valuesEqual :: "host \<Rightarrow> Value \<Rightarrow> Value \<Rightarrow> bool" where
  "valuesEqual h NIL_VAL NIL_VAL = True"
| "valuesEqual h (BOOL_VAL a) (BOOL_VAL b) = (a = b)"
| "valuesEqual h (NUMBER_VAL a) (NUMBER_VAL b) = feq h a b"
| "valuesEqual h (OBJ_VAL a) (OBJ_VAL b) = (a = b)"
| "valuesEqual h _ _ = False"

text \<open>
  Modelled from the spec: the three operations of \<^verbatim>\<open>table.c\<close> that \<open>run\<close> calls
  on the globals table.
\<close>

definition tableGet :: "(string \<rightharpoonup> Value) \<Rightarrow> string \<Rightarrow> Value option" where
  "tableGet table key = table key"

definition tableSet :: "(string \<rightharpoonup> Value) \<Rightarrow> string \<Rightarrow> Value \<Rightarrow> bool \<times> (string \<rightharpoonup> Value)" where
  "tableSet table key v = (table key = None, table(key \<mapsto> v))"

definition tableDelete :: "(string \<rightharpoonup> Value) \<Rightarrow> string \<Rightarrow> (string \<rightharpoonup> Value)" where
  "tableDelete table key = table(key := None)"

text \<open>
  Modelled from the spec: \<open>newClosure\<close> (\<^verbatim>\<open>object.c\<close>, not part of the sources)
  allocates a closure whose upvalue array has the function's upvalue count and holds
  null pointers.
\<close>

definition newClosure :: "nat \<Rightarrow> VM \<Rightarrow> (nat \<times> VM) option" where
  "newClosure f vm = do {
     fn \<leftarrow> deref (heap_functions vm) f;
     Some (length (heap_closures vm),
           vm\<lparr>heap_closures := heap_closures vm
                  @ [\<lparr>function = f,
                      upvalues = replicate (ObjFunction.upvalueCount fn) None,
                      upvalueCount = ObjFunction.upvalueCount fn\<rparr>]\<rparr>)
   }"

text \<open>
  \<open>run\<close> keeps \<open>frame = &vm.frames[vm.frameCount - 1]\<close> in a local variable and
  rebinds it whenever \<open>frameCount\<close> changes, so at the head of every iteration it is the
  topmost frame.
\<close>

definition current_frame :: "VM \<Rightarrow> CallFrame option" where
  "current_frame vm =
     (if 0 < frameCount vm \<and> frameCount vm \<le> FRAMES_MAX
      then Some (frames vm (frameCount vm - 1)) else None)"

definition set_frame :: "CallFrame \<Rightarrow> VM \<Rightarrow> VM" where
  "set_frame frame vm = vm\<lparr>frames := (frames vm)(frameCount vm - 1 := frame)\<rparr>"

definition frame_function :: "VM \<Rightarrow> CallFrame \<Rightarrow> ObjFunction option" where
  "frame_function vm frame = do {
     cl \<leftarrow> deref (heap_closures vm) (closure frame);
     deref (heap_functions vm) (function cl)
   }"

definition READ_BYTE :: "VM \<Rightarrow> (8 word \<times> VM) option" where
  "READ_BYTE vm = do {
     frame \<leftarrow> current_frame vm;
     fn \<leftarrow> frame_function vm frame;
     b \<leftarrow> deref (code (chunk fn)) (ip frame);
     Some (b, set_frame (frame\<lparr>ip := ip frame + 1\<rparr>) vm)
   }"

definition READ_SHORT :: "VM \<Rightarrow> (nat \<times> VM) option" where
  "READ_SHORT vm = do {
     frame \<leftarrow> current_frame vm;
     fn \<leftarrow> frame_function vm frame;
     hi \<leftarrow> deref (code (chunk fn)) (ip frame);
     lo \<leftarrow> deref (code (chunk fn)) (ip frame + 1);
     Some (unat (or (push_bit 8 (ucast hi)) (ucast lo) :: 16 word),
           set_frame (frame\<lparr>ip := ip frame + 2\<rparr>) vm)
   }"

definition READ_CONSTANT :: "VM \<Rightarrow> (Value \<times> VM) option" where
  "READ_CONSTANT vm = do {
     (b, vm1) \<leftarrow> READ_BYTE vm;
     frame \<leftarrow> current_frame vm1;
     fn \<leftarrow> frame_function vm1 frame;
     c \<leftarrow> deref (constants (chunk fn)) (unat b);
     Some (c, vm1)
   }"

definition READ_STRING :: "VM \<Rightarrow> (string \<times> VM) option" where
  "READ_STRING vm = do {
     (c, vm1) \<leftarrow> READ_CONSTANT vm;
     s \<leftarrow> AS_STRING c;
     Some (s, vm1)
   }"

text \<open>
  One iteration of the loop either goes on with a new state or leaves \<open>run\<close> with a
  result.
\<close>

datatype step_result = Continue VM | Return InterpretResult VM

definition raise :: "string \<Rightarrow> InterpretResult \<Rightarrow> VM \<Rightarrow> step_result option" where
  "raise msg res vm = do {
     vm' \<leftarrow> runtimeError msg vm;
     Some (Return res vm')
   }"

definition BINARY_OP :: "(double \<Rightarrow> double \<Rightarrow> Value) \<Rightarrow> VM \<Rightarrow> step_result option" where
  "BINARY_OP f vm = do {
     b0 \<leftarrow> peek 0 vm;
     bad \<leftarrow> (if \<not> IS_NUMBER b0 then Some True
             else map_option (\<lambda>a0. \<not> IS_NUMBER a0) (peek 1 vm));
     if bad then raise ''Operands must be numbers.'' INTERPRET_RUNTIME_ERROR vm
     else do {
       (bv, vm1) \<leftarrow> pop vm;
       b \<leftarrow> AS_NUMBER bv;
       (av, vm2) \<leftarrow> pop vm1;
       a \<leftarrow> AS_NUMBER av;
       vm3 \<leftarrow> push (f a b) vm2;
       Some (Continue vm3)
     }
   }"

text \<open>
  The loop of \<open>OP_CLOSURE\<close> that fills \<open>closure->upvalues[i]\<close> for
  \<open>i < closure->upvalueCount\<close>: \<open>fillUpvalue\<close> is its body, and \<open>n\<close> counts the
  iterations left.
\<close>

definition fillUpvalue :: "nat \<Rightarrow> nat \<Rightarrow> VM \<Rightarrow> VM option" where
  "fillUpvalue c i vm = do {
     (isLocal, vm1) \<leftarrow> READ_BYTE vm;
     (index, vm2) \<leftarrow> READ_BYTE vm1;
     frame \<leftarrow> current_frame vm2;
     (captured, vm3) \<leftarrow>
       (if isLocal \<noteq> 0 then do {
          (p, vm') \<leftarrow> captureUpvalue (slots frame + uint index) vm2;
          Some (Some p, vm')
        }
        else do {
          cl \<leftarrow> deref (heap_closures vm2) (closure frame);
          p \<leftarrow> deref (upvalues cl) (unat index);
          Some (p, vm2)
        });
     target \<leftarrow> deref (heap_closures vm3) c;
     if i < length (upvalues target)
     then Some (vm3\<lparr>heap_closures :=
                  (heap_closures vm3)[c := target\<lparr>upvalues := (upvalues target)[i := captured]\<rparr>]\<rparr>)
     else None
   }"

fun fillUpvalues :: "nat \<Rightarrow> nat \<Rightarrow> nat \<Rightarrow> VM \<Rightarrow> VM option" where
  "fillUpvalues c i 0 vm = Some vm"
| "fillUpvalues c i (Suc n) vm = do {
     vm' \<leftarrow> fillUpvalue c i vm;
     fillUpvalues c (i + 1) n vm'
   }"

definition read_location :: "VM \<Rightarrow> ObjUpvalue \<Rightarrow> Value option" where
  "read_location vm u =
     (case location u of
        Slot i \<Rightarrow> if in_stack i then Some (stack vm i) else None
      | Closed \<Rightarrow> Some (closed u))"

definition write_location :: "nat \<Rightarrow> ObjUpvalue \<Rightarrow> Value \<Rightarrow> VM \<Rightarrow> VM option" where
  "write_location p u v vm =
     (case location u of
        Slot i \<Rightarrow> if in_stack i then Some (vm\<lparr>stack := (stack vm)(i := v)\<rparr>) else None
      | Closed \<Rightarrow> Some (vm\<lparr>heap_upvalues := (heap_upvalues vm)[p := u\<lparr>closed := v\<rparr>]\<rparr>))"

definition undefined_variable :: "string \<Rightarrow> string" where
  "undefined_variable chars = ''Undefined variable '' @ [CHR 0x27] @ chars @ [CHR 0x27] @ ''.''"

text \<open>The body of each \<open>case\<close> of the \<open>switch\<close>; the opcode byte has been read.\<close>

fun exec :: "host \<Rightarrow> OpCode \<Rightarrow> VM \<Rightarrow> step_result option" where
  "exec h OP_CONSTANT vm = do {
     (constant, vm1) \<leftarrow> READ_CONSTANT vm;
     vm2 \<leftarrow> push constant vm1;
     Some (Continue vm2)
   }"
| "exec h OP_NIL vm = map_option Continue (push NIL_VAL vm)"
| "exec h OP_TRUE vm = map_option Continue (push (BOOL_VAL True) vm)"
| "exec h OP_FALSE vm = map_option Continue (push (BOOL_VAL False) vm)"
| "exec h OP_POP vm = do {
     (v, vm1) \<leftarrow> pop vm;
     Some (Continue vm1)
   }"
| "exec h OP_GET_LOCAL vm = do {
     (slot, vm1) \<leftarrow> READ_BYTE vm;
     frame \<leftarrow> current_frame vm1;
     let i = slots frame + uint slot;
     vm2 \<leftarrow> (if in_stack i then push (stack vm1 i) vm1 else None);
     Some (Continue vm2)
   }"
| "exec h OP_SET_LOCAL vm = do {
     (slot, vm1) \<leftarrow> READ_BYTE vm;
     frame \<leftarrow> current_frame vm1;
     v \<leftarrow> peek 0 vm1;
     let i = slots frame + uint slot;
     if in_stack i then Some (Continue (vm1\<lparr>stack := (stack vm1)(i := v)\<rparr>)) else None
   }"
| "exec h OP_GET_GLOBAL vm = do {
     (chars, vm1) \<leftarrow> READ_STRING vm;
     case tableGet (globals vm1) chars of
       None \<Rightarrow> raise (undefined_variable chars) INTERPRET_RUNTIME_ERROR vm1
     | Some v \<Rightarrow> map_option Continue (push v vm1)
   }"
| "exec h OP_DEFINE_GLOBAL vm = do {
     (chars, vm1) \<leftarrow> READ_STRING vm;
     v \<leftarrow> peek 0 vm1;
     let vm2 = vm1\<lparr>globals := snd (tableSet (globals vm1) chars v)\<rparr>;
     (v', vm3) \<leftarrow> pop vm2;
     Some (Continue vm3)
   }"
| "exec h OP_SET_GLOBAL vm = do {
     (chars, vm1) \<leftarrow> READ_STRING vm;
     v \<leftarrow> peek 0 vm1;
     let (isNewKey, table) = tableSet (globals vm1) chars v;
     if isNewKey
     then raise (undefined_variable chars) INTERPRET_RUNTIME_ERROR
            (vm1\<lparr>globals := tableDelete table chars\<rparr>)
     else Some (Continue (vm1\<lparr>globals := table\<rparr>))
   }"
| "exec h OP_GET_UPVALUE vm = do {
     (slot, vm1) \<leftarrow> READ_BYTE vm;
     frame \<leftarrow> current_frame vm1;
     cl \<leftarrow> deref (heap_closures vm1) (closure frame);
     entry \<leftarrow> deref (upvalues cl) (unat slot);
     p \<leftarrow> entry;
     u \<leftarrow> deref (heap_upvalues vm1) p;
     v \<leftarrow> read_location vm1 u;
     map_option Continue (push v vm1)
   }"
| "exec h OP_SET_UPVALUE vm = do {
     (slot, vm1) \<leftarrow> READ_BYTE vm;
     frame \<leftarrow> current_frame vm1;
     cl \<leftarrow> deref (heap_closures vm1) (closure frame);
     entry \<leftarrow> deref (upvalues cl) (unat slot);
     p \<leftarrow> entry;
     u \<leftarrow> deref (heap_upvalues vm1) p;
     v \<leftarrow> peek 0 vm1;
     map_option Continue (write_location p u v vm1)
   }"
| "exec h OP_EQUAL vm = do {
     (b, vm1) \<leftarrow> pop vm;
     (a, vm2) \<leftarrow> pop vm1;
     map_option Continue (push (BOOL_VAL (valuesEqual h a b)) vm2)
   }"
| "exec h OP_GREATER vm = BINARY_OP (\<lambda>a b. BOOL_VAL (fgreater h a b)) vm"
| "exec h OP_LESS vm = BINARY_OP (\<lambda>a b. BOOL_VAL (fless h a b)) vm"
| "exec h OP_ADD vm = do {
     b0 \<leftarrow> peek 0 vm;
     strings \<leftarrow> (if IS_STRING b0 then map_option IS_STRING (peek 1 vm) else Some False);
     if strings then map_option Continue (concatenate vm)
     else do {
       numbers \<leftarrow> (if IS_NUMBER b0 then map_option IS_NUMBER (peek 1 vm) else Some False);
       if numbers then do {
         (bv, vm1) \<leftarrow> pop vm;
         b \<leftarrow> AS_NUMBER bv;
         (av, vm2) \<leftarrow> pop vm1;
         a \<leftarrow> AS_NUMBER av;
         map_option Continue (push (NUMBER_VAL (fadd h a b)) vm2)
       }
       else raise ''Operands must be two numbers or two strings.'' INTERPRET_COMPILE_ERROR vm
     }
   }"
| "exec h OP_SUBTRACT vm = BINARY_OP (\<lambda>a b. NUMBER_VAL (fsub h a b)) vm"
| "exec h OP_MULTIPLY vm = BINARY_OP (\<lambda>a b. NUMBER_VAL (fmul h a b)) vm"
| "exec h OP_DIVIDE vm = BINARY_OP (\<lambda>a b. NUMBER_VAL (fdiv h a b)) vm"
| "exec h OP_NOT vm = do {
     (v, vm1) \<leftarrow> pop vm;
     map_option Continue (push (BOOL_VAL (isFalsey v)) vm1)
   }"
| "exec h OP_NEGATE vm = do {
     v0 \<leftarrow> peek 0 vm;
     if \<not> IS_NUMBER v0 then raise ''Operand must be a number.'' INTERPRET_RUNTIME_ERROR vm
     else do {
       (v, vm1) \<leftarrow> pop vm;
       a \<leftarrow> AS_NUMBER v;
       map_option Continue (push (NUMBER_VAL (fneg h a)) vm1)
     }
   }"
| "exec h OP_PRINT vm = do {
     (v, vm1) \<leftarrow> pop vm;
     Some (Continue (vm1\<lparr>out := out vm1 @ [v]\<rparr>))
   }"
| "exec h OP_JUMP vm = do {
     (offset, vm1) \<leftarrow> READ_SHORT vm;
     frame \<leftarrow> current_frame vm1;
     Some (Continue (set_frame (frame\<lparr>ip := ip frame + offset\<rparr>) vm1))
   }"
| "exec h OP_JUMP_IF_FALSE vm = do {
     (offset, vm1) \<leftarrow> READ_SHORT vm;
     frame \<leftarrow> current_frame vm1;
     v \<leftarrow> peek 0 vm1;
     Some (Continue (if isFalsey v then set_frame (frame\<lparr>ip := ip frame + offset\<rparr>) vm1
                     else vm1))
   }"
| "exec h OP_LOOP vm = do {
     (offset, vm1) \<leftarrow> READ_SHORT vm;
     frame \<leftarrow> current_frame vm1;
     if offset \<le> ip frame
     then Some (Continue (set_frame (frame\<lparr>ip := ip frame - offset\<rparr>) vm1))
     else None
   }"
| "exec h OP_CALL vm = do {
     (b, vm1) \<leftarrow> READ_BYTE vm;
     let argCount = uint b;
     callee \<leftarrow> peek argCount vm1;
     (ok, vm2) \<leftarrow> callValue h callee argCount vm1;
     Some (if ok then Continue vm2 else Return INTERPRET_RUNTIME_ERROR vm2)
   }"
| "exec h OP_CLOSURE vm = do {
     (c, vm1) \<leftarrow> READ_CONSTANT vm;
     f \<leftarrow> AS_FUNCTION c;
     (cl, vm2) \<leftarrow> newClosure f vm1;
     vm3 \<leftarrow> push (OBJ_VAL (OBJ_CLOSURE cl)) vm2;
     target \<leftarrow> deref (heap_closures vm3) cl;
     vm4 \<leftarrow> fillUpvalues cl 0 (upvalueCount target) vm3;
     Some (Continue vm4)
   }"
| "exec h OP_CLOSE_UPVALUE vm = do {
     vm1 \<leftarrow> closeUpvalues (stackTop vm - 1) vm;
     (v, vm2) \<leftarrow> pop vm1;
     Some (Continue vm2)
   }"
| "exec h OP_RETURN vm = do {
     frame \<leftarrow> current_frame vm;
     (result, vm1) \<leftarrow> pop vm;
     vm2 \<leftarrow> closeUpvalues (slots frame) vm1;
     let vm3 = vm2\<lparr>frameCount := frameCount vm2 - 1\<rparr>;
     if frameCount vm3 = 0 then do {
       (v, vm4) \<leftarrow> pop vm3;
       Some (Return INTERPRET_OK vm4)
     }
     else map_option Continue (push result (vm3\<lparr>stackTop := slots frame\<rparr>))
   }"

text \<open>
  One iteration: read the opcode byte and dispatch. A byte that is no opcode matches
  no \<open>case\<close>, and the loop goes on with the next byte. The block under
  \<^verbatim>\<open>DEBUG_TRACE_EXECUTION\<close> only prints the stack and the instruction and is left out.
\<close>

definition step :: "host \<Rightarrow> VM \<Rightarrow> step_result option" where
  "step h vm = do {
     (instruction, vm1) \<leftarrow> READ_BYTE vm;
     case decode h instruction of
       None \<Rightarrow> Some (Continue vm1)
     | Some opc \<Rightarrow> exec h opc vm1
   }"

text \<open>
  The loop \<open>for (;;)\<close> of \<open>run\<close>. It need not end; \<open>None\<close> is a run that does not
  return or leaves defined behaviour.
\<close>

partial_function (option) run :: "host \<Rightarrow> VM \<Rightarrow> (InterpretResult \<times> VM) option" where
  "run h vm = do {
     r \<leftarrow> step h vm;
     case r of
       Continue vm' \<Rightarrow> run h vm'
     | Return res vm' \<Rightarrow> Some (res, vm')
   }"

declare run.simps [code]

text \<open>
  The function \<^verbatim>\<open>interpret\<close> after its call of \<open>compile\<close>, which is not part of
  the sources: \<open>compiled\<close> is the result of that call, the address of the script's
  function object or null.
\<close>

definition interpret' :: "host \<Rightarrow> nat option \<Rightarrow> VM \<Rightarrow> (InterpretResult \<times> VM) option" where
  "interpret' h compiled vm =
     (case compiled of
        None \<Rightarrow> Some (INTERPRET_COMPILE_ERROR, vm)
      | Some f \<Rightarrow> do {
          vm1 \<leftarrow> push (OBJ_VAL (OBJ_FUNCTION f)) vm;
          (cl, vm2) \<leftarrow> newClosure f vm1;
          (v, vm3) \<leftarrow> pop vm2;
          vm4 \<leftarrow> push (OBJ_VAL (OBJ_CLOSURE cl)) vm3;
          (ok, vm5) \<leftarrow> call cl 0 vm4;
          run h vm5
        })"

section \<open>The open-upvalue list as a list\<close>

text \<open>
  \<open>uv_path heap a ps b\<close>: following the \<open>next\<close> fields from the pointer \<open>a\<close> visits
  the upvalue objects at the addresses \<open>ps\<close>, in this order, and arrives at \<open>b\<close>.
  \<open>open_list vm ps ls\<close>: the list that starts at \<open>vm.openUpvalues\<close> consists of the
  upvalues \<open>ps\<close> and ends in the null pointer, the location of each is the stack slot
  at the same position of \<open>ls\<close>, and the slots are strictly descending.
\<close>

fun uv_path :: "ObjUpvalue list \<Rightarrow> nat option \<Rightarrow> nat list \<Rightarrow> nat option \<Rightarrow> bool" where
  "uv_path heap a [] b \<longleftrightarrow> a = b"
| "uv_path heap a (p # ps) b \<longleftrightarrow>
     a = Some p \<and> p < length heap \<and> uv_path heap (next (heap ! p)) ps b"

definition open_list :: "VM \<Rightarrow> nat list \<Rightarrow> int list \<Rightarrow> bool" where
  "open_list vm ps ls \<longleftrightarrow>
     uv_path (heap_upvalues vm) (openUpvalues vm) ps None
     \<and> map (\<lambda>p. location (heap_upvalues vm ! p)) ps = map Slot ls
     \<and> sorted_wrt (>) ls"

text \<open>
  The position at which the search of \<open>captureUpvalue\<close> stops in a descending list
  of slots: the number of leading slots above \<open>local\<close>.
\<close>

definition capture_index :: "int \<Rightarrow> int list \<Rightarrow> nat" where
  "capture_index local ls = length (takeWhile (\<lambda>l. local < l) ls)"

text \<open>
  The ordering invariant of the data model: the open-upvalue list is a list of open
  upvalues with strictly descending stack slots.
\<close>

definition open_sorted :: "VM \<Rightarrow> bool" where
  "open_sorted vm \<longleftrightarrow> (\<exists>ps ls. open_list vm ps ls)"

fun result_vm :: "step_result \<Rightarrow> VM" where
  "result_vm (Continue vm) = vm"
| "result_vm (Return res vm) = vm"

section \<open>Example machines\<close>

text \<open>
  Concrete hosts, programs and states on which the definitions are evaluated. The
  example host numbers the opcodes in the order of the \<open>switch\<close> in \<open>run\<close>; its
  arithmetic on bit patterns only stands in for the arithmetic of doubles, which no
  statement below depends on.
\<close>

definition example_decode :: "8 word \<Rightarrow> OpCode option" where
  "example_decode b = deref
     [OP_CONSTANT, OP_NIL, OP_TRUE, OP_FALSE, OP_POP, OP_GET_LOCAL, OP_SET_LOCAL,
      OP_GET_GLOBAL, OP_DEFINE_GLOBAL, OP_SET_GLOBAL, OP_GET_UPVALUE, OP_SET_UPVALUE,
      OP_EQUAL, OP_GREATER, OP_LESS, OP_ADD, OP_SUBTRACT, OP_MULTIPLY, OP_DIVIDE,
      OP_NOT, OP_NEGATE, OP_PRINT, OP_JUMP, OP_JUMP_IF_FALSE, OP_LOOP, OP_CALL,
      OP_CLOSURE, OP_CLOSE_UPVALUE, OP_RETURN] (unat b)"

definition example_host :: host where
  "example_host =
     \<lparr>decode = example_decode, fadd = (+), fsub = (-), fmul = (*), fdiv = (div),
      fneg = uminus, fgreater = (\<lambda>a b. b < a), fless = (<), feq = (=),
      natives = (\<lambda>n argCount args. NUMBER_VAL 0)\<rparr>"

text \<open>
  A machine as \<open>initVM\<close> and \<open>compile\<close> leave it: empty stacks, the native
  \<open>clock\<close> as the only global, and the compiled function objects on the heap.
\<close>

definition compiled_vm :: "ObjFunction list \<Rightarrow> VM" where
  "compiled_vm fns =
     \<lparr>frames = (\<lambda>i. \<lparr>closure = 0, ip = 0, slots = 0\<rparr>),
      frameCount = 0,
      stack = (\<lambda>i. NIL_VAL),
      stackTop = 0,
      globals = [''clock'' \<mapsto> OBJ_VAL (OBJ_NATIVE 0)],
      openUpvalues = None,
      heap_functions = fns,
      heap_closures = [],
      heap_upvalues = [],
      out = [],
      err = []\<rparr>"

text \<open>
  A machine in the middle of the top-level script: one frame with instruction pointer
  \<open>pc\<close>, the script's closure in slot \<open>0\<close> and the values \<open>stk\<close> above it.
\<close>

definition script_vm :: "8 word list \<Rightarrow> Value list \<Rightarrow> Value list \<Rightarrow> nat \<Rightarrow> VM" where
  "script_vm cd ks stk pc =
     \<lparr>frames = (\<lambda>i. \<lparr>closure = 0, ip = pc, slots = 0\<rparr>),
      frameCount = 1,
      stack = (\<lambda>i. if 0 \<le> i \<and> i \<le> int (length stk)
                    then (OBJ_VAL (OBJ_CLOSURE 0) # stk) ! nat i else NIL_VAL),
      stackTop = int (length stk) + 1,
      globals = [''clock'' \<mapsto> OBJ_VAL (OBJ_NATIVE 0)],
      openUpvalues = None,
      heap_functions = [\<lparr>arity = 0, upvalueCount = 0,
                          chunk = \<lparr>code = cd, lines = map (\<lambda>b. 1) cd, constants = ks\<rparr>,
                          name = None\<rparr>],
      heap_closures = [\<lparr>function = 0, upvalues = [], upvalueCount = 0\<rparr>],
      heap_upvalues = [],
      out = [],
      err = []\<rparr>"

text \<open>
  The script \<^verbatim>\<open>print 1 + nil;\<close>: \<open>OP_CONSTANT 0\<close>, \<open>OP_NIL\<close>, \<open>OP_ADD\<close>, \<open>OP_PRINT\<close>,
  \<open>OP_NIL\<close>, \<open>OP_RETURN\<close>, with the double \<open>1.0\<close> as its constant.
\<close>

definition add_nil_script :: ObjFunction where
  "add_nil_script =
     \<lparr>arity = 0, upvalueCount = 0,
      chunk = \<lparr>code = [0, 0, 1, 15, 21, 1, 28], lines = [1, 1, 1, 1, 1, 1, 1],
               constants = [NUMBER_VAL 0x3FF0000000000000]\<rparr>,
      name = None\<rparr>"

text \<open>
  Two function objects: a script whose code is \<open>OP_CALL 2\<close>, \<open>OP_POP\<close>, \<open>OP_NIL\<close>,
  \<open>OP_RETURN\<close> on line \<open>3\<close>, and a function \<open>f\<close> of two parameters that calls the
  closure in its slot \<open>0\<close> with its own arguments. \<open>call_vm n pc stk\<close> is a machine with
  \<open>n\<close> active frames, the script's at the bottom with instruction pointer \<open>pc\<close> and
  frames of \<open>f\<close> above it, and with the operand stack \<open>stk\<close>.
\<close>

definition script_function :: ObjFunction where
  "script_function =
     \<lparr>arity = 0, upvalueCount = 0,
      chunk = \<lparr>code = [25, 2, 4, 1, 28], lines = [3, 3, 3, 3, 3], constants = []\<rparr>,
      name = None\<rparr>"

definition f_function :: ObjFunction where
  "f_function =
     \<lparr>arity = 2, upvalueCount = 0,
      chunk = \<lparr>code = [5, 0, 5, 1, 5, 2, 25, 2, 28], lines = [1, 1, 1, 1, 1, 1, 1, 1, 1],
               constants = []\<rparr>,
      name = Some ''f''\<rparr>"

definition call_vm :: "nat \<Rightarrow> nat \<Rightarrow> Value list \<Rightarrow> VM" where
  "call_vm n pc stk =
     \<lparr>frames = (\<lambda>i. if i = 0 then \<lparr>closure = 0, ip = pc, slots = 0\<rparr>
                    else \<lparr>closure = 1, ip = 8, slots = 3 * int i - 2\<rparr>),
      frameCount = n,
      stack = (\<lambda>i. if 0 \<le> i \<and> i < int (length stk) then stk ! nat i else NIL_VAL),
      stackTop = int (length stk),
      globals = [''clock'' \<mapsto> OBJ_VAL (OBJ_NATIVE 0)],
      openUpvalues = None,
      heap_functions = [script_function, f_function],
      heap_closures = [\<lparr>function = 0, upvalues = [], upvalueCount = 0\<rparr>,
                       \<lparr>function = 1, upvalues = [], upvalueCount = 0\<rparr>],
      heap_upvalues = [],
      out = [],
      err = []\<rparr>"

definition full_stack_vm :: VM where
  "full_stack_vm = (script_vm [1, 28] [] [] 1)\<lparr>stackTop := STACK_MAX\<rparr>"

text \<open>
  The script
  \<^verbatim>\<open>fun f() {\<close>
  \<^verbatim>\<open>  return 1 + nil; }\<close>
  \<^verbatim>\<open>f();\<close>
  as two function objects: the script is \<open>OP_CLOSURE 0\<close>, \<open>OP_CALL 0\<close>, \<open>OP_POP\<close>,
  \<open>OP_NIL\<close>, \<open>OP_RETURN\<close>, and \<open>f\<close> is \<open>OP_CONSTANT 0\<close>, \<open>OP_NIL\<close>, \<open>OP_ADD\<close>,
  \<open>OP_RETURN\<close>.
\<close>

definition nested_script :: ObjFunction where
  "nested_script =
     \<lparr>arity = 0, upvalueCount = 0,
      chunk = \<lparr>code = [26, 0, 25, 0, 4, 1, 28], lines = [1, 1, 3, 3, 3, 4, 4],
               constants = [OBJ_VAL (OBJ_FUNCTION 1)]\<rparr>,
      name = None\<rparr>"

definition nested_f :: ObjFunction where
  "nested_f =
     \<lparr>arity = 0, upvalueCount = 0,
      chunk = \<lparr>code = [0, 0, 1, 15, 28], lines = [2, 2, 2, 2, 2],
               constants = [NUMBER_VAL 0x3FF0000000000000]\<rparr>,
      name = Some ''f''\<rparr>"

text \<open>
  A machine whose script has three locals in the slots \<open>1\<close>, \<open>2\<close> and \<open>3\<close>, with
  open upvalues for the slots \<open>3\<close> and \<open>1\<close>.
\<close>

definition upvalue_vm :: VM where
  "upvalue_vm =
     (script_vm [1, 28] [] [NUMBER_VAL 1, NUMBER_VAL 2, NUMBER_VAL 3] 0)
       \<lparr>heap_upvalues := [\<lparr>location = Slot 1, closed = NIL_VAL, next = None\<rparr>,
                          \<lparr>location = Slot 3, closed = NIL_VAL, next = Some 0\<rparr>],
        openUpvalues := Some 1\<rparr>"

text \<open>
  A machine about to return from a call of \<open>f\<close>: the callee in slot \<open>1\<close>, the
  arguments \<open>5\<close> and \<open>6\<close>, the result \<open>9\<close> on top, and an open upvalue for the first
  argument.
\<close>

definition return_vm :: VM where
  "return_vm =
     (call_vm 2 2 [OBJ_VAL (OBJ_CLOSURE 0), OBJ_VAL (OBJ_CLOSURE 1),
                   NUMBER_VAL 5, NUMBER_VAL 6, NUMBER_VAL 9])
       \<lparr>heap_upvalues := [\<lparr>location = Slot 2, closed = NIL_VAL, next = None\<rparr>],
        openUpvalues := Some 0\<rparr>"

section \<open>Evaluation rules\<close>

lemmas bound_defs = in_stack_def STACK_MAX_def FRAMES_MAX_def UINT8_COUNT_def

lemmas eval_defs =
  example_host_def example_decode_def bound_defs
  push_def pop_def peek_def raise_def runtimeError_def deref_def show_int_def digits.simps
  resetStack_def call_def callValue_def newClosure_def current_frame_def set_frame_def
  frame_function_def READ_BYTE_def READ_SHORT_def READ_CONSTANT_def READ_STRING_def
  fillUpvalue_def step_def Let_def

section \<open>Truthiness\<close>

lemma isFalsey_iff: "isFalsey v \<longleftrightarrow> v = NIL_VAL \<or> v = BOOL_VAL False"
  by (cases v) (simp_all add: isFalsey_def)

lemma OP_NOT_exec:
  assumes "in_stack (stackTop vm - 1)"
  shows "exec h OP_NOT vm =
           Some (Continue (vm\<lparr>stack := (stack vm)
                   (stackTop vm - 1 := BOOL_VAL (isFalsey (stack vm (stackTop vm - 1))))\<rparr>))"
  using assms by (simp add: pop_def push_def Let_def)

text \<open>
  Claim C5. A value is falsey iff it is nil or the boolean false; in particular every
  number (also zero) and every string (also the empty one) is truthy. With a value
  \<open>v\<close> on top of the operand stack, \<open>OP_NOT\<close> replaces it by the boolean
  \<open>isFalsey v\<close>, and a second \<open>OP_NOT\<close> leaves the boolean that is true iff \<open>v\<close> is
  neither nil nor false.
\<close>

theorem falsey_nil_false_OP_NOT:
  assumes "in_stack (stackTop vm - 1)"
    and "v = stack vm (stackTop vm - 1)"
    and "vm' = vm\<lparr>stack := (stack vm)(stackTop vm - 1 := BOOL_VAL (isFalsey v))\<rparr>"
  shows "(isFalsey w \<longleftrightarrow> w = NIL_VAL \<or> w = BOOL_VAL False)
       \<and> \<not> isFalsey (NUMBER_VAL d) \<and> \<not> isFalsey (OBJ_VAL (OBJ_STRING s))
       \<and> exec h OP_NOT vm = Some (Continue vm')
       \<and> (isFalsey v \<longleftrightarrow> v = NIL_VAL \<or> v = BOOL_VAL False)
       \<and> exec h OP_NOT vm' =
           Some (Continue (vm\<lparr>stack := (stack vm)
                   (stackTop vm - 1 := BOOL_VAL (v \<noteq> NIL_VAL \<and> v \<noteq> BOOL_VAL False))\<rparr>))"
proof -
  have top: "in_stack (stackTop vm' - 1)" "stackTop vm' = stackTop vm"
    using assms by simp_all
  have "exec h OP_NOT vm' =
          Some (Continue (vm'\<lparr>stack := (stack vm')
                  (stackTop vm' - 1 := BOOL_VAL (isFalsey (stack vm' (stackTop vm' - 1))))\<rparr>))"
    using top(1) by (rule OP_NOT_exec)
  then have "exec h OP_NOT vm' =
          Some (Continue (vm\<lparr>stack := (stack vm)
                  (stackTop vm - 1 := BOOL_VAL (isFalsey (BOOL_VAL (isFalsey v))))\<rparr>))"
    using assms(3) by simp
  moreover have "isFalsey (BOOL_VAL (isFalsey v)) \<longleftrightarrow> v \<noteq> NIL_VAL \<and> v \<noteq> BOOL_VAL False"
    by (simp add: isFalsey_iff)
  ultimately show ?thesis
    using OP_NOT_exec [OF assms(1), of h] assms(2,3) by (simp add: isFalsey_iff)
qed

theorem falsey_nil_false_OP_NOT_witness:
  "in_stack (stackTop (script_vm [19, 19] [] [NUMBER_VAL 0] 1) - 1)
   \<and> exec example_host OP_NOT (script_vm [19, 19] [] [NUMBER_VAL 0] 1) =
       Some (Continue ((script_vm [19, 19] [] [NUMBER_VAL 0] 1)
         \<lparr>stack := (stack (script_vm [19, 19] [] [NUMBER_VAL 0] 1))(1 := BOOL_VAL False)\<rparr>))
   \<and> exec example_host OP_NOT ((script_vm [19, 19] [] [NUMBER_VAL 0] 1)
         \<lparr>stack := (stack (script_vm [19, 19] [] [NUMBER_VAL 0] 1))(1 := BOOL_VAL False)\<rparr>) =
       Some (Continue ((script_vm [19, 19] [] [NUMBER_VAL 0] 1)
         \<lparr>stack := (stack (script_vm [19, 19] [] [NUMBER_VAL 0] 1))(1 := BOOL_VAL True)\<rparr>))"
proof -
  let ?vm = "script_vm [19, 19] [] [NUMBER_VAL 0] 1"
  have h: "in_stack (stackTop ?vm - 1)"
    by (simp add: script_vm_def bound_defs)
  show ?thesis
    using h falsey_nil_false_OP_NOT [OF h refl refl, of NIL_VAL 0 "[]" example_host]
    by (simp add: script_vm_def isFalsey_iff)
qed

section \<open>Addition\<close>

text \<open>
  Claim C1, at the script \<^verbatim>\<open>print 1 + nil;\<close>. \<open>OP_ADD\<close> finds a number and nil,
  reports the error with its stack trace, and \<open>interpret\<close> returns
  \<open>INTERPRET_COMPILE_ERROR\<close>, not \<open>INTERPRET_RUNTIME_ERROR\<close>.
\<close>

theorem OP_ADD_number_nil_result:
  "map_option (\<lambda>(res, vm). (res, err vm))
     (interpret' example_host (Some 0) (compiled_vm [add_nil_script])) =
   Some (INTERPRET_COMPILE_ERROR,
         ''Operands must be two numbers or two strings.\<newline>[line 1] in script\<newline>'')"
  apply (simp add: interpret'_def compiled_vm_def add_nil_script_def eval_defs)
  apply (subst run.simps, simp add: eval_defs)
  apply (subst run.simps, simp add: eval_defs)
  apply (subst run.simps, simp add: eval_defs)
  done

section \<open>Reading operands\<close>

text \<open>The read macros change nothing but the instruction pointer of the current frame.\<close>

lemma READ_BYTE_fields:
  "READ_BYTE vm = Some (b, vm1) \<Longrightarrow> vm1 = vm\<lparr>frames := frames vm1\<rparr>"
  by (auto simp: READ_BYTE_def set_frame_def split: bind_splits)

lemma READ_CONSTANT_fields:
  "READ_CONSTANT vm = Some (c, vm1) \<Longrightarrow> vm1 = vm\<lparr>frames := frames vm1\<rparr>"
  by (auto simp: READ_CONSTANT_def split: bind_splits dest: READ_BYTE_fields)

lemma READ_STRING_fields:
  "READ_STRING vm = Some (chars, vm1) \<Longrightarrow> vm1 = vm\<lparr>frames := frames vm1\<rparr>"
  by (auto simp: READ_STRING_def split: bind_splits dest: READ_CONSTANT_fields)

lemma fields_frames:
  assumes "vm1 = vm\<lparr>frames := fr\<rparr>"
  shows "globals vm1 = globals vm" "stack vm1 = stack vm" "stackTop vm1 = stackTop vm"
    "err vm1 = err vm" "out vm1 = out vm" "frameCount vm1 = frameCount vm"
    "openUpvalues vm1 = openUpvalues vm" "heap_upvalues vm1 = heap_upvalues vm"
    "heap_closures vm1 = heap_closures vm" "heap_functions vm1 = heap_functions vm"
  using assms by simp_all

lemma stackTrace_cong:
  "frames vm' = frames vm \<Longrightarrow> heap_closures vm' = heap_closures vm \<Longrightarrow>
   heap_functions vm' = heap_functions vm \<Longrightarrow> stackTrace vm' n = stackTrace vm n"
  by (induction n) simp_all

section \<open>Globals\<close>

text \<open>
  Claim C10. \<open>OP_DEFINE_GLOBAL\<close> on a name that is already bound: with the operand
  naming \<open>chars\<close> and a value on top of the operand stack, the instruction goes on
  (it leaves \<open>run\<close> with no result and writes nothing to \<^verbatim>\<open>stderr\<close>), binds \<open>chars\<close> to
  that value, keeps every other binding, and pops the value.
\<close>

theorem OP_DEFINE_GLOBAL_rebinds:
  assumes "READ_STRING vm = Some (chars, vm1)"
    and "globals vm chars = Some old"
    and "in_stack (stackTop vm - 1)"
  shows "exec h OP_DEFINE_GLOBAL vm =
           Some (Continue (vm1\<lparr>globals := (globals vm)(chars \<mapsto> stack vm (stackTop vm - 1)),
                              stackTop := stackTop vm - 1\<rparr>))
       \<and> vm1 = vm\<lparr>frames := frames vm1\<rparr>"
proof -
  note f = READ_STRING_fields [OF assms(1)]
  note g = fields_frames [OF f]
  show ?thesis
    using assms(1,3) f
    by (simp add: g peek_def pop_def tableSet_def Let_def)
qed

theorem OP_DEFINE_GLOBAL_rebinds_witness:
  "READ_STRING (script_vm [8, 0] [OBJ_VAL (OBJ_STRING ''clock'')] [NUMBER_VAL 7] 1) =
     Some (''clock'', (script_vm [8, 0] [OBJ_VAL (OBJ_STRING ''clock'')] [NUMBER_VAL 7] 1)
                        \<lparr>frames := (frames (script_vm [8, 0] [OBJ_VAL (OBJ_STRING ''clock'')]
                                      [NUMBER_VAL 7] 1))(0 := \<lparr>closure = 0, ip = 2, slots = 0\<rparr>)\<rparr>)
   \<and> globals (script_vm [8, 0] [OBJ_VAL (OBJ_STRING ''clock'')] [NUMBER_VAL 7] 1) ''clock'' =
       Some (OBJ_VAL (OBJ_NATIVE 0))
   \<and> exec example_host OP_DEFINE_GLOBAL
       (script_vm [8, 0] [OBJ_VAL (OBJ_STRING ''clock'')] [NUMBER_VAL 7] 1) =
       Some (Continue ((script_vm [8, 0] [OBJ_VAL (OBJ_STRING ''clock'')] [NUMBER_VAL 7] 1)
         \<lparr>frames := (frames (script_vm [8, 0] [OBJ_VAL (OBJ_STRING ''clock'')]
                       [NUMBER_VAL 7] 1))(0 := \<lparr>closure = 0, ip = 2, slots = 0\<rparr>),
          globals := [''clock'' \<mapsto> NUMBER_VAL 7], stackTop := 1\<rparr>))"
proof -
  let ?vm = "script_vm [8, 0] [OBJ_VAL (OBJ_STRING ''clock'')] [NUMBER_VAL 7] 1"
  let ?vm1 = "?vm\<lparr>frames := (frames ?vm)(0 := \<lparr>closure = 0, ip = 2, slots = 0\<rparr>)\<rparr>"
  have r: "READ_STRING ?vm = Some (''clock'', ?vm1)"
    by (simp add: script_vm_def eval_defs fun_eq_iff)
  have g: "globals ?vm ''clock'' = Some (OBJ_VAL (OBJ_NATIVE 0))"
    by (simp add: script_vm_def)
  have s: "in_stack (stackTop ?vm - 1)"
    by (simp add: script_vm_def bound_defs)
  have "exec example_host OP_DEFINE_GLOBAL ?vm =
          Some (Continue (?vm1\<lparr>globals := (globals ?vm)(''clock'' \<mapsto> stack ?vm (stackTop ?vm - 1)),
                              stackTop := stackTop ?vm - 1\<rparr>))"
    using OP_DEFINE_GLOBAL_rebinds [OF r g s, of example_host] by (rule conjunct1)
  moreover have "(globals ?vm)(''clock'' \<mapsto> stack ?vm (stackTop ?vm - 1)) = [''clock'' \<mapsto> NUMBER_VAL 7]"
    by (simp add: script_vm_def)
  moreover have "stackTop ?vm - 1 = 1"
    by (simp add: script_vm_def)
  ultimately show ?thesis
    using r g by simp
qed

text \<open>
  Claim C3. For a name \<open>chars\<close> that is not bound in the globals table, with a stack
  trace \<open>tr\<close> for the active frames: \<open>OP_GET_GLOBAL\<close> leaves \<open>run\<close> with
  \<open>INTERPRET_RUNTIME_ERROR\<close> after the message \<^verbatim>\<open>Undefined variable 'chars'.\<close>; so does
  \<open>OP_SET_GLOBAL\<close> (which peeks at the value on top of the stack), and the globals
  table of the resulting machine is the one before the instruction.
\<close>

theorem unbound_global_runtime_error:
  assumes "READ_STRING vm = Some (chars, vm1)"
    and "globals vm chars = None"
    and "stackTrace vm1 (frameCount vm1) = Some tr"
    and "vm' = resetStack (vm1\<lparr>err := err vm @ undefined_variable chars @ ''\<newline>'' @ tr\<rparr>)"
  shows "exec h OP_GET_GLOBAL vm = Some (Return INTERPRET_RUNTIME_ERROR vm')
       \<and> (in_stack (stackTop vm - 1) \<longrightarrow>
            exec h OP_SET_GLOBAL vm = Some (Return INTERPRET_RUNTIME_ERROR vm'))
       \<and> globals vm' = globals vm"
proof -
  note f = READ_STRING_fields [OF assms(1)]
  note g = fields_frames [OF f]
  have tr: "stackTrace (vm1\<lparr>globals := gl\<rparr>) (frameCount vm) = Some tr"
      "stackTrace vm1 (frameCount vm) = Some tr" for gl
    using assms(3) stackTrace_cong [of "vm1\<lparr>globals := gl\<rparr>" vm1] by (simp_all add: g)
  have del: "(globals vm)(chars := None) = globals vm"
    using assms(2) by (simp add: fun_upd_idem)
  have upd: "vm1\<lparr>globals := globals vm\<rparr> = vm1"
    using g(1) by (metis VM.surjective VM.update_convs(5))
  show ?thesis
    using assms(1,2)
    by (simp add: assms(4) g peek_def tableGet_def tableSet_def tableDelete_def raise_def
        runtimeError_def tr Let_def del resetStack_def upd)
qed

theorem unbound_global_runtime_error_witness:
  "READ_STRING (script_vm [9, 0] [OBJ_VAL (OBJ_STRING ''x'')] [NUMBER_VAL 7] 1) =
     Some (''x'', (script_vm [9, 0] [OBJ_VAL (OBJ_STRING ''x'')] [NUMBER_VAL 7] 1)
                    \<lparr>frames := (frames (script_vm [9, 0] [OBJ_VAL (OBJ_STRING ''x'')]
                                  [NUMBER_VAL 7] 1))(0 := \<lparr>closure = 0, ip = 2, slots = 0\<rparr>)\<rparr>)
   \<and> globals (script_vm [9, 0] [OBJ_VAL (OBJ_STRING ''x'')] [NUMBER_VAL 7] 1) ''x'' = None
   \<and> in_stack (stackTop (script_vm [9, 0] [OBJ_VAL (OBJ_STRING ''x'')] [NUMBER_VAL 7] 1) - 1)
   \<and> exec example_host OP_SET_GLOBAL
       (script_vm [9, 0] [OBJ_VAL (OBJ_STRING ''x'')] [NUMBER_VAL 7] 1) =
       Some (Return INTERPRET_RUNTIME_ERROR
         ((script_vm [9, 0] [OBJ_VAL (OBJ_STRING ''x'')] [NUMBER_VAL 7] 1)
            \<lparr>frames := (frames (script_vm [9, 0] [OBJ_VAL (OBJ_STRING ''x'')]
                          [NUMBER_VAL 7] 1))(0 := \<lparr>closure = 0, ip = 2, slots = 0\<rparr>),
             frameCount := 0, stackTop := 0,
             err := ''Undefined variable '' @ [CHR 0x27] @ ''x'' @ [CHR 0x27] @ ''.''
                    @ ''\<newline>[line 1] in script\<newline>''\<rparr>))
   \<and> exec example_host OP_GET_GLOBAL
       (script_vm [9, 0] [OBJ_VAL (OBJ_STRING ''x'')] [NUMBER_VAL 7] 1) =
       exec example_host OP_SET_GLOBAL
       (script_vm [9, 0] [OBJ_VAL (OBJ_STRING ''x'')] [NUMBER_VAL 7] 1)"
proof -
  let ?vm = "script_vm [9, 0] [OBJ_VAL (OBJ_STRING ''x'')] [NUMBER_VAL 7] 1"
  let ?vm1 = "?vm\<lparr>frames := (frames ?vm)(0 := \<lparr>closure = 0, ip = 2, slots = 0\<rparr>)\<rparr>"
  let ?tr = "''[line 1] in script\<newline>''"
  have r: "READ_STRING ?vm = Some (''x'', ?vm1)"
    by (simp add: script_vm_def eval_defs fun_eq_iff)
  have g: "globals ?vm ''x'' = None"
    by (simp add: script_vm_def)
  have s: "in_stack (stackTop ?vm - 1)"
    by (simp add: script_vm_def bound_defs)
  have t: "stackTrace ?vm1 (frameCount ?vm1) = Some ?tr"
    by (simp add: script_vm_def eval_defs)
  note th = unbound_global_runtime_error [OF r g t refl, of example_host]
  have e: "resetStack (?vm1\<lparr>err := err ?vm @ undefined_variable ''x'' @ ''\<newline>'' @ ?tr\<rparr>) =
           ?vm\<lparr>frames := (frames ?vm)(0 := \<lparr>closure = 0, ip = 2, slots = 0\<rparr>),
             frameCount := 0, stackTop := 0,
             err := ''Undefined variable '' @ [CHR 0x27] @ ''x'' @ [CHR 0x27] @ ''.''
                    @ ''\<newline>[line 1] in script\<newline>''\<rparr>"
    by (simp add: script_vm_def resetStack_def undefined_variable_def)
  show ?thesis
    using r g s th unfolding e by simp
qed

section \<open>Calls and the frame bound\<close>

lemma call_arity_mismatch:
  assumes "stackTrace vm (frameCount vm) = Some tr"
    and "deref (heap_closures vm) c = Some cl"
    and "deref (heap_functions vm) (function cl) = Some fn"
    and "argCount \<noteq> arity fn"
  shows "call c argCount vm =
           Some (False, resetStack (vm\<lparr>err := err vm @ (''Expected '' @ show_int (arity fn)
             @ '' arguments but got '' @ show_int argCount @ ''.'') @ ''\<newline>'' @ tr\<rparr>))"
  using assms by (simp add: call_def runtimeError_def)

lemma call_overflow:
  assumes "stackTrace vm (frameCount vm) = Some tr"
    and "deref (heap_closures vm) c = Some cl"
    and "deref (heap_functions vm) (function cl) = Some fn"
    and "argCount = arity fn"
    and "frameCount vm = FRAMES_MAX"
  shows "call c argCount vm =
           Some (False, resetStack (vm\<lparr>err := err vm @ ''Stack overflow.'' @ ''\<newline>'' @ tr\<rparr>))"
  using assms by (simp add: call_def runtimeError_def)

lemma call_success:
  assumes "deref (heap_closures vm) c = Some cl"
    and "deref (heap_functions vm) (function cl) = Some fn"
    and "argCount = arity fn"
    and "frameCount vm < FRAMES_MAX"
    and "0 \<le> stackTop vm - argCount - 1" and "stackTop vm - argCount - 1 \<le> STACK_MAX"
  shows "call c argCount vm =
           Some (True, vm\<lparr>frames := (frames vm)(frameCount vm :=
                   \<lparr>closure = c, ip = 0, slots = stackTop vm - argCount - 1\<rparr>),
                 frameCount := frameCount vm + 1\<rparr>)"
  using assms by (simp add: call_def Let_def)

lemma call_True:
  assumes "call c argCount vm = Some (True, vm')"
  shows "frameCount vm < FRAMES_MAX
       \<and> vm' = vm\<lparr>frames := (frames vm)(frameCount vm :=
                   \<lparr>closure = c, ip = 0, slots = stackTop vm - argCount - 1\<rparr>),
                 frameCount := frameCount vm + 1\<rparr>"
  using assms
  by (auto simp: call_def Let_def split: bind_splits if_splits)

lemma callValue_native:
  assumes "in_stack (stackTop vm - argCount - 1)"
  shows "callValue h (OBJ_VAL (OBJ_NATIVE n)) argCount vm =
           Some (True, vm\<lparr>stack := (stack vm)(stackTop vm - argCount - 1 :=
                   natives h n argCount (map (stack vm) [stackTop vm - argCount .. stackTop vm - 1])),
                 stackTop := stackTop vm - argCount\<rparr>)"
  using assms by (simp add: callValue_def push_def Let_def algebra_simps)

lemma callValue_not_callable:
  assumes "stackTrace vm (frameCount vm) = Some tr"
    and "\<forall>c. callee \<noteq> OBJ_VAL (OBJ_CLOSURE c)" and "\<forall>n. callee \<noteq> OBJ_VAL (OBJ_NATIVE n)"
  shows "callValue h callee argCount vm =
           Some (False, resetStack (vm\<lparr>err := err vm @ ''Can only call functions and classes.''
                                               @ ''\<newline>'' @ tr\<rparr>))"
  using assms by (simp add: callValue_def runtimeError_def split: Value.splits Obj.splits)

lemma OP_CALL_exec:
  assumes "READ_BYTE vm0 = Some (b, vm)" and "peek (uint b) vm = Some callee"
    and "callValue h callee (uint b) vm = Some (ok, vm')"
  shows "exec h OP_CALL vm0 = Some (if ok then Continue vm' else Return INTERPRET_RUNTIME_ERROR vm')"
  using assms by (simp add: Let_def)

text \<open>The stack trace of the example machine \<open>call_vm\<close>.\<close>

lemma call_vm_simps:
  "frames (call_vm m pc stk) i =
     (if i = 0 then \<lparr>closure = 0, ip = pc, slots = 0\<rparr>
      else \<lparr>closure = 1, ip = 8, slots = 3 * int i - 2\<rparr>)"
  "frameCount (call_vm m pc stk) = m"
  "heap_closures (call_vm m pc stk) =
     [\<lparr>function = 0, upvalues = [], upvalueCount = 0\<rparr>,
      \<lparr>function = 1, upvalues = [], upvalueCount = 0\<rparr>]"
  "heap_functions (call_vm m pc stk) = [script_function, f_function]"
  "stackTop (call_vm m pc stk) = int (length stk)"
  "err (call_vm m pc stk) = []"
  by (simp_all add: call_vm_def)

lemma call_vm_trace:
  "n < FRAMES_MAX \<Longrightarrow>
   stackTrace (call_vm m 2 stk) (Suc n) =
     Some (concat (replicate n ''[line 1] in f()\<newline>'') @ ''[line 3] in script\<newline>'')"
proof (induction n)
  case 0
  then show ?case
    by (simp add: call_vm_simps script_function_def f_function_def deref_def show_int_def
        digits.simps)
next
  case (Suc n)
  then have "stackTrace (call_vm m 2 stk) (Suc n) =
     Some (concat (replicate n ''[line 1] in f()\<newline>'') @ ''[line 3] in script\<newline>'')"
    by simp
  moreover have "\<not> FRAMES_MAX \<le> Suc n"
    using Suc.prems by simp
  ultimately show ?case
    unfolding stackTrace.simps(2) [of _ "Suc n"]
    by (simp add: call_vm_simps script_function_def f_function_def deref_def show_int_def
        digits.simps)
qed

lemma runtimeError_reported:
  "stackTrace vm (frameCount vm) = Some tr \<Longrightarrow> runtimeError msg vm = Some (reported msg tr vm)"
  by (simp add: runtimeError_def reported_def)

lemma READ_BYTE_call_vm:
  "READ_BYTE (call_vm 1 1 stk) = Some (2, call_vm 1 2 stk)"
  by (simp add: READ_BYTE_def current_frame_def frame_function_def set_frame_def deref_def
      FRAMES_MAX_def call_vm_def script_function_def fun_eq_iff)

text \<open>
  Claim C4. Let \<open>tr\<close> be the stack trace of the active frames and \<open>c\<close> a closure of
  the function \<open>fn\<close>. The checks are made in the order of the claim's sentence, so
  each case is stated for the calls that passed the checks before it.
  \<^item> A closure called with \<open>argCount \<noteq> arity fn\<close>: the message
    \<^verbatim>\<open>Expected <arity> arguments but got <argCount>.\<close> is reported and the call fails.
  \<^item> A closure called with matching arity while \<open>FRAMES_MAX\<close> frames are active:
    \<^verbatim>\<open>Stack overflow.\<close> is reported and the call fails.
  \<^item> Otherwise the closure call writes the frame \<open>frameCount vm\<close> with \<open>ip\<close> at the
    start of the function's code and \<open>slots = stackTop - argCount - 1\<close>.
  \<^item> A native pushes no frame; the callee and its \<open>argCount\<close> arguments are replaced
    by the native's result.
  \<^item> Any other callee: \<^verbatim>\<open>Can only call functions and classes.\<close> is reported and the
    call fails.
  \<^item> \<open>OP_CALL\<close> calls the value \<open>argCount\<close> slots below the top; when the call fails,
    \<open>run\<close> returns \<open>INTERPRET_RUNTIME_ERROR\<close>.
\<close>

theorem OP_CALL_callValue_cases:
  assumes "stackTrace vm (frameCount vm) = Some tr"
    and "deref (heap_closures vm) c = Some cl"
    and "deref (heap_functions vm) (function cl) = Some fn"
  shows "(argCount \<noteq> arity fn \<longrightarrow>
            callValue h (OBJ_VAL (OBJ_CLOSURE c)) argCount vm =
              Some (False, reported (''Expected '' @ show_int (arity fn) @ '' arguments but got ''
                                      @ show_int argCount @ ''.'') tr vm))
       \<and> (argCount = arity fn \<and> frameCount vm = FRAMES_MAX \<longrightarrow>
            callValue h (OBJ_VAL (OBJ_CLOSURE c)) argCount vm =
              Some (False, reported ''Stack overflow.'' tr vm))
       \<and> (argCount = arity fn \<and> frameCount vm < FRAMES_MAX
            \<and> 0 \<le> stackTop vm - argCount - 1 \<and> stackTop vm - argCount - 1 \<le> STACK_MAX \<longrightarrow>
            callValue h (OBJ_VAL (OBJ_CLOSURE c)) argCount vm =
              Some (True, vm\<lparr>frames := (frames vm)(frameCount vm :=
                            \<lparr>closure = c, ip = 0, slots = stackTop vm - argCount - 1\<rparr>),
                          frameCount := frameCount vm + 1\<rparr>))
       \<and> (in_stack (stackTop vm - argCount - 1) \<longrightarrow>
            callValue h (OBJ_VAL (OBJ_NATIVE n)) argCount vm =
              Some (True, vm\<lparr>stack := (stack vm)(stackTop vm - argCount - 1 :=
                            natives h n argCount
                              (map (stack vm) [stackTop vm - argCount .. stackTop vm - 1])),
                          stackTop := stackTop vm - argCount\<rparr>))
       \<and> ((\<forall>c'. callee \<noteq> OBJ_VAL (OBJ_CLOSURE c')) \<and> (\<forall>n'. callee \<noteq> OBJ_VAL (OBJ_NATIVE n')) \<longrightarrow>
            callValue h callee argCount vm =
              Some (False, reported ''Can only call functions and classes.'' tr vm))
       \<and> (READ_BYTE vm0 = Some (b, vm) \<and> peek (uint b) vm = Some called
            \<and> callValue h called (uint b) vm = Some (ok, vm') \<longrightarrow>
            exec h OP_CALL vm0 =
              Some (if ok then Continue vm' else Return INTERPRET_RUNTIME_ERROR vm'))"
proof (intro conjI impI)
  assume "argCount \<noteq> arity fn"
  then show "callValue h (OBJ_VAL (OBJ_CLOSURE c)) argCount vm =
      Some (False, reported (''Expected '' @ show_int (arity fn) @ '' arguments but got ''
                              @ show_int argCount @ ''.'') tr vm)"
    using call_arity_mismatch [OF assms] by (simp add: callValue_def reported_def)
next
  assume "argCount = arity fn \<and> frameCount vm = FRAMES_MAX"
  then show "callValue h (OBJ_VAL (OBJ_CLOSURE c)) argCount vm =
      Some (False, reported ''Stack overflow.'' tr vm)"
    using call_overflow [OF assms] by (simp add: callValue_def reported_def)
next
  assume "argCount = arity fn \<and> frameCount vm < FRAMES_MAX
            \<and> 0 \<le> stackTop vm - argCount - 1 \<and> stackTop vm - argCount - 1 \<le> STACK_MAX"
  then show "callValue h (OBJ_VAL (OBJ_CLOSURE c)) argCount vm =
      Some (True, vm\<lparr>frames := (frames vm)(frameCount vm :=
                    \<lparr>closure = c, ip = 0, slots = stackTop vm - argCount - 1\<rparr>),
                  frameCount := frameCount vm + 1\<rparr>)"
    using call_success [OF assms(2,3)] by (simp add: callValue_def)
next
  assume "in_stack (stackTop vm - argCount - 1)"
  then show "callValue h (OBJ_VAL (OBJ_NATIVE n)) argCount vm =
      Some (True, vm\<lparr>stack := (stack vm)(stackTop vm - argCount - 1 :=
                    natives h n argCount
                      (map (stack vm) [stackTop vm - argCount .. stackTop vm - 1])),
                  stackTop := stackTop vm - argCount\<rparr>)"
    by (rule callValue_native)
next
  assume "(\<forall>c'. callee \<noteq> OBJ_VAL (OBJ_CLOSURE c')) \<and> (\<forall>n'. callee \<noteq> OBJ_VAL (OBJ_NATIVE n'))"
  then show "callValue h callee argCount vm =
      Some (False, reported ''Can only call functions and classes.'' tr vm)"
    using callValue_not_callable [OF assms(1)] by (simp add: reported_def)
next
  assume "READ_BYTE vm0 = Some (b, vm) \<and> peek (uint b) vm = Some called
            \<and> callValue h called (uint b) vm = Some (ok, vm')"
  then show "exec h OP_CALL vm0 =
      Some (if ok then Continue vm' else Return INTERPRET_RUNTIME_ERROR vm')"
    using OP_CALL_exec by blast
qed

theorem OP_CALL_callValue_cases_witness:
  "callValue example_host (OBJ_VAL (OBJ_CLOSURE 1)) 1
     (call_vm 1 2 [OBJ_VAL (OBJ_CLOSURE 0), OBJ_VAL (OBJ_CLOSURE 1), NUMBER_VAL 1, NUMBER_VAL 2]) =
     Some (False, reported ''Expected 2 arguments but got 1.'' ''[line 3] in script\<newline>''
       (call_vm 1 2 [OBJ_VAL (OBJ_CLOSURE 0), OBJ_VAL (OBJ_CLOSURE 1), NUMBER_VAL 1, NUMBER_VAL 2]))
   \<and> callValue example_host (OBJ_VAL (OBJ_CLOSURE 1)) 2 (call_vm 64 2 []) =
     Some (False, reported ''Stack overflow.''
       (concat (replicate 63 ''[line 1] in f()\<newline>'') @ ''[line 3] in script\<newline>'')
       (call_vm 64 2 []))
   \<and> callValue example_host (OBJ_VAL (OBJ_CLOSURE 1)) 2
     (call_vm 1 2 [OBJ_VAL (OBJ_CLOSURE 0), OBJ_VAL (OBJ_CLOSURE 1), NUMBER_VAL 1, NUMBER_VAL 2]) =
     Some (True,
       (call_vm 1 2 [OBJ_VAL (OBJ_CLOSURE 0), OBJ_VAL (OBJ_CLOSURE 1), NUMBER_VAL 1, NUMBER_VAL 2])
         \<lparr>frames := (frames (call_vm 1 2 [OBJ_VAL (OBJ_CLOSURE 0), OBJ_VAL (OBJ_CLOSURE 1),
                       NUMBER_VAL 1, NUMBER_VAL 2]))(1 := \<lparr>closure = 1, ip = 0, slots = 1\<rparr>),
          frameCount := 2\<rparr>)
   \<and> callValue example_host (OBJ_VAL (OBJ_NATIVE 0)) 2
     (call_vm 1 2 [OBJ_VAL (OBJ_CLOSURE 0), OBJ_VAL (OBJ_NATIVE 0), NUMBER_VAL 1, NUMBER_VAL 2]) =
     Some (True,
       (call_vm 1 2 [OBJ_VAL (OBJ_CLOSURE 0), OBJ_VAL (OBJ_NATIVE 0), NUMBER_VAL 1, NUMBER_VAL 2])
         \<lparr>stack := (stack (call_vm 1 2 [OBJ_VAL (OBJ_CLOSURE 0), OBJ_VAL (OBJ_NATIVE 0),
                      NUMBER_VAL 1, NUMBER_VAL 2]))(1 := NUMBER_VAL 0),
          stackTop := 2\<rparr>)
   \<and> callValue example_host (NUMBER_VAL 1) 2
     (call_vm 1 2 [OBJ_VAL (OBJ_CLOSURE 0), NUMBER_VAL 1, NUMBER_VAL 1, NUMBER_VAL 2]) =
     Some (False, reported ''Can only call functions and classes.'' ''[line 3] in script\<newline>''
       (call_vm 1 2 [OBJ_VAL (OBJ_CLOSURE 0), NUMBER_VAL 1, NUMBER_VAL 1, NUMBER_VAL 2]))
   \<and> exec example_host OP_CALL
     (call_vm 1 1 [OBJ_VAL (OBJ_CLOSURE 0), NUMBER_VAL 1, NUMBER_VAL 1, NUMBER_VAL 2]) =
     Some (Return INTERPRET_RUNTIME_ERROR
       (reported ''Can only call functions and classes.'' ''[line 3] in script\<newline>''
         (call_vm 1 2 [OBJ_VAL (OBJ_CLOSURE 0), NUMBER_VAL 1, NUMBER_VAL 1, NUMBER_VAL 2])))"
proof -
  let ?cl = "\<lparr>function = 1, upvalues = [], upvalueCount = 0\<rparr>"
  have t1: "stackTrace (call_vm 1 2 stk) (frameCount (call_vm 1 2 stk)) =
              Some ''[line 3] in script\<newline>''" for stk
    using call_vm_trace [of 0 1 stk] by (simp add: call_vm_simps FRAMES_MAX_def)
  have t64: "stackTrace (call_vm 64 2 []) (frameCount (call_vm 64 2 [])) =
              Some (concat (replicate 63 ''[line 1] in f()\<newline>'') @ ''[line 3] in script\<newline>'')"
    using call_vm_trace [of 63 64 "[]"] by (simp add: call_vm_simps FRAMES_MAX_def)
  have c: "deref (heap_closures (call_vm m 2 stk)) 1 = Some ?cl" for m stk
    by (simp add: call_vm_simps deref_def)
  have f: "deref (heap_functions (call_vm m 2 stk)) (function ?cl) = Some f_function" for m stk
    by (simp add: call_vm_simps deref_def)
  have a: "arity f_function = 2"
    by (simp add: f_function_def)
  let ?s1 = "[OBJ_VAL (OBJ_CLOSURE 0), OBJ_VAL (OBJ_CLOSURE 1), NUMBER_VAL 1, NUMBER_VAL 2]"
  let ?s2 = "[OBJ_VAL (OBJ_CLOSURE 0), OBJ_VAL (OBJ_NATIVE 0), NUMBER_VAL 1, NUMBER_VAL 2]"
  let ?s3 = "[OBJ_VAL (OBJ_CLOSURE 0), NUMBER_VAL 1, NUMBER_VAL 1, NUMBER_VAL 2]"
  have 1: "callValue example_host (OBJ_VAL (OBJ_CLOSURE 1)) 1 (call_vm 1 2 ?s1) =
      Some (False, reported ''Expected 2 arguments but got 1.'' ''[line 3] in script\<newline>''
        (call_vm 1 2 ?s1))"
    using OP_CALL_callValue_cases [where argCount = 1 and h = example_host,
        OF t1 [of ?s1] c [of 1 ?s1] f [of 1 ?s1],
        THEN conjunct1]
    by (simp add: a show_int_def digits.simps)
  have 2: "callValue example_host (OBJ_VAL (OBJ_CLOSURE 1)) 2 (call_vm 64 2 []) =
      Some (False, reported ''Stack overflow.''
        (concat (replicate 63 ''[line 1] in f()\<newline>'') @ ''[line 3] in script\<newline>'')
        (call_vm 64 2 []))"
    using OP_CALL_callValue_cases [where argCount = 2 and h = example_host,
        OF t64 c [of 64 "[]"] f [of 64 "[]"],
        THEN conjunct2, THEN conjunct1]
    by (simp add: a call_vm_simps FRAMES_MAX_def)
  have 3: "callValue example_host (OBJ_VAL (OBJ_CLOSURE 1)) 2 (call_vm 1 2 ?s1) =
      Some (True, (call_vm 1 2 ?s1)
        \<lparr>frames := (frames (call_vm 1 2 ?s1))(1 := \<lparr>closure = 1, ip = 0, slots = 1\<rparr>),
         frameCount := 2\<rparr>)"
    using OP_CALL_callValue_cases [where argCount = 2 and h = example_host,
        OF t1 [of ?s1] c [of 1 ?s1] f [of 1 ?s1],
        THEN conjunct2, THEN conjunct2, THEN conjunct1]
    by (simp add: a call_vm_simps bound_defs)
  have 4: "callValue example_host (OBJ_VAL (OBJ_NATIVE 0)) 2 (call_vm 1 2 ?s2) =
      Some (True, (call_vm 1 2 ?s2)
        \<lparr>stack := (stack (call_vm 1 2 ?s2))(1 := NUMBER_VAL 0), stackTop := 2\<rparr>)"
    using OP_CALL_callValue_cases [where argCount = 2 and h = example_host and n = 0,
        OF t1 [of ?s2] c [of 1 ?s2] f [of 1 ?s2],
        THEN conjunct2, THEN conjunct2, THEN conjunct2, THEN conjunct1]
    by (simp add: call_vm_def bound_defs example_host_def)
  have 5: "callValue example_host (NUMBER_VAL 1) 2 (call_vm 1 2 ?s3) =
      Some (False, reported ''Can only call functions and classes.'' ''[line 3] in script\<newline>''
        (call_vm 1 2 ?s3))"
    using OP_CALL_callValue_cases [where callee = "NUMBER_VAL 1" and h = example_host and argCount = 2,
        OF t1 [of ?s3] c [of 1 ?s3] f [of 1 ?s3],
        THEN conjunct2, THEN conjunct2, THEN conjunct2, THEN conjunct2, THEN conjunct1]
    by simp
  have p: "peek (uint (2 :: 8 word)) (call_vm 1 2 ?s3) = Some (NUMBER_VAL 1)"
    by (simp add: peek_def call_vm_def bound_defs)
  have 6: "exec example_host OP_CALL (call_vm 1 1 ?s3) =
      Some (Return INTERPRET_RUNTIME_ERROR
        (reported ''Can only call functions and classes.'' ''[line 3] in script\<newline>''
          (call_vm 1 2 ?s3)))"
    using OP_CALL_callValue_cases [where h = example_host and ?vm0.0 = "call_vm 1 1 ?s3" and b = 2
        and called = "NUMBER_VAL 1" and ok = False
        and vm' = "reported ''Can only call functions and classes.'' ''[line 3] in script\<newline>''
                     (call_vm 1 2 ?s3)",
        OF t1 [of ?s3] c [of 1 ?s3] f [of 1 ?s3],
        THEN conjunct2, THEN conjunct2, THEN conjunct2, THEN conjunct2, THEN conjunct2]
      READ_BYTE_call_vm [of ?s3] p 5
    by simp
  show ?thesis
    using 1 2 3 4 5 6 by blast
qed

section \<open>The operand stack bound\<close>

text \<open>
  Claim C2 as stated fails for the operand stack. In \<open>full_stack_vm\<close> all
  \<open>STACK_MAX\<close> slots are in use and the next instruction is \<open>OP_NIL\<close>. \<open>push\<close> makes
  no check: its store goes to the address one past the last slot of \<open>vm.stack\<close>.
  The result \<open>None\<close> is that undefined behaviour; \<open>runtimeError\<close> is not called and
  \<open>run\<close> does not return \<open>INTERPRET_RUNTIME_ERROR\<close>.
\<close>

theorem push_past_STACK_MAX_unreported:
  "stackTop full_stack_vm = 64 * 256
   \<and> current_frame full_stack_vm = Some \<lparr>closure = 0, ip = 1, slots = 0\<rparr>
   \<and> push NIL_VAL full_stack_vm = None
   \<and> exec example_host OP_NIL full_stack_vm = None"
  by (simp add: full_stack_vm_def script_vm_def push_def current_frame_def bound_defs)

text \<open>
  Claim C2 as amended. The frame stack is bounded: a call of a closure with matching
  arity while \<open>FRAMES_MAX\<close> frames are active reports \<^verbatim>\<open>Stack overflow.\<close>, and a call
  that succeeds found fewer than \<open>FRAMES_MAX\<close> frames and wrote the frame with index
  \<open>frameCount vm\<close>. \<open>push\<close> checks no bound and reports nothing: while \<open>stackTop\<close>
  is a slot of the stack it stores the value there and advances \<open>stackTop\<close>, and
  whenever it has a result that is the case, with \<^verbatim>\<open>stderr\<close> and the frames as they
  were.
\<close>

theorem frame_bound_reported_push_unchecked:
  assumes "stackTrace vm (frameCount vm) = Some tr"
    and "deref (heap_closures vm) c = Some cl"
    and "deref (heap_functions vm) (function cl) = Some fn"
  shows "(argCount = arity fn \<and> frameCount vm = FRAMES_MAX \<longrightarrow>
            call c argCount vm = Some (False, reported ''Stack overflow.'' tr vm))
       \<and> (\<forall>vm'. call c argCount vm = Some (True, vm') \<longrightarrow>
            frameCount vm < FRAMES_MAX
            \<and> vm' = vm\<lparr>frames := (frames vm)(frameCount vm :=
                        \<lparr>closure = c, ip = 0, slots = stackTop vm - argCount - 1\<rparr>),
                      frameCount := frameCount vm + 1\<rparr>)
       \<and> (in_stack (stackTop vm) \<longrightarrow>
            push v vm = Some (vm\<lparr>stack := (stack vm)(stackTop vm := v),
                                 stackTop := stackTop vm + 1\<rparr>))
       \<and> (\<forall>vm'. push v vm = Some vm' \<longrightarrow>
            in_stack (stackTop vm) \<and> err vm' = err vm \<and> frameCount vm' = frameCount vm
            \<and> frames vm' = frames vm)"
proof (intro conjI impI allI)
  assume "argCount = arity fn \<and> frameCount vm = FRAMES_MAX"
  then show "call c argCount vm = Some (False, reported ''Stack overflow.'' tr vm)"
    using call_overflow [OF assms] by (simp add: reported_def)
next
  fix vm'
  assume "call c argCount vm = Some (True, vm')"
  from call_True [OF this]
  show "frameCount vm < FRAMES_MAX"
    and "vm' = vm\<lparr>frames := (frames vm)(frameCount vm :=
                        \<lparr>closure = c, ip = 0, slots = stackTop vm - argCount - 1\<rparr>),
                     frameCount := frameCount vm + 1\<rparr>"
    by simp_all
next
  assume "in_stack (stackTop vm)"
  then show "push v vm = Some (vm\<lparr>stack := (stack vm)(stackTop vm := v),
                                      stackTop := stackTop vm + 1\<rparr>)"
    by (simp add: push_def)
next
  fix vm'
  assume "push v vm = Some vm'"
  then show "in_stack (stackTop vm)" and "err vm' = err vm"
    and "frameCount vm' = frameCount vm" and "frames vm' = frames vm"
    by (auto simp: push_def split: if_splits)
qed

theorem frame_bound_reported_push_unchecked_witness:
  "call 1 2 (call_vm 64 2 []) =
     Some (False, reported ''Stack overflow.''
       (concat (replicate 63 ''[line 1] in f()\<newline>'') @ ''[line 3] in script\<newline>'')
       (call_vm 64 2 []))
   \<and> call 1 2 (call_vm 63 2 [NIL_VAL, NIL_VAL, NIL_VAL]) =
     Some (True, (call_vm 63 2 [NIL_VAL, NIL_VAL, NIL_VAL])
       \<lparr>frames := (frames (call_vm 63 2 [NIL_VAL, NIL_VAL, NIL_VAL]))
                    (63 := \<lparr>closure = 1, ip = 0, slots = 0\<rparr>),
        frameCount := 64\<rparr>)
   \<and> push (BOOL_VAL True) (call_vm 64 2 []) =
     Some ((call_vm 64 2 [])\<lparr>stack := (stack (call_vm 64 2 []))(0 := BOOL_VAL True),
                              stackTop := 1\<rparr>)"
proof -
  let ?cl = "\<lparr>function = 1, upvalues = [], upvalueCount = 0\<rparr>"
  let ?s = "[NIL_VAL, NIL_VAL, NIL_VAL]"
  have t: "m = Suc n \<Longrightarrow> n < FRAMES_MAX \<Longrightarrow>
      stackTrace (call_vm m 2 stk) (frameCount (call_vm m 2 stk)) =
        Some (concat (replicate n ''[line 1] in f()\<newline>'') @ ''[line 3] in script\<newline>'')"
    for m n stk
    using call_vm_trace [of n m stk] by (simp add: call_vm_simps)
  have c: "deref (heap_closures (call_vm m 2 stk)) 1 = Some ?cl" for m stk
    by (simp add: call_vm_simps deref_def)
  have f: "deref (heap_functions (call_vm m 2 stk)) (function ?cl) = Some f_function" for m stk
    by (simp add: call_vm_simps deref_def)
  have a: "arity f_function = 2"
    by (simp add: f_function_def)
  have t64: "stackTrace (call_vm 64 2 []) (frameCount (call_vm 64 2 [])) =
      Some (concat (replicate 63 ''[line 1] in f()\<newline>'') @ ''[line 3] in script\<newline>'')"
    using t [of 64 63 "[]"] by (simp add: FRAMES_MAX_def)
  have t63: "stackTrace (call_vm 63 2 ?s) (frameCount (call_vm 63 2 ?s)) =
      Some (concat (replicate 62 ''[line 1] in f()\<newline>'') @ ''[line 3] in script\<newline>'')"
    using t [of 63 62 ?s] by (simp add: FRAMES_MAX_def)
  have 1: "call 1 2 (call_vm 64 2 []) =
     Some (False, reported ''Stack overflow.''
       (concat (replicate 63 ''[line 1] in f()\<newline>'') @ ''[line 3] in script\<newline>'')
       (call_vm 64 2 []))"
    using frame_bound_reported_push_unchecked [where argCount = 2,
        OF t64 c [of 64 "[]"] f [of 64 "[]"], THEN conjunct1]
    by (simp add: a call_vm_simps FRAMES_MAX_def)
  have ok: "call 1 2 (call_vm 63 2 ?s) =
     Some (True, (call_vm 63 2 ?s)
       \<lparr>frames := (frames (call_vm 63 2 ?s))(63 := \<lparr>closure = 1, ip = 0, slots = 0\<rparr>),
        frameCount := 64\<rparr>)"
    using call_success [OF c [of 63 ?s] f [of 63 ?s], of 2]
    by (simp add: a call_vm_simps bound_defs)
  have 2: "frameCount (call_vm 63 2 ?s) < FRAMES_MAX"
    using frame_bound_reported_push_unchecked [where argCount = 2,
        OF t63 c [of 63 ?s] f [of 63 ?s], THEN conjunct2, THEN conjunct1] ok
    by blast
  have 3: "push (BOOL_VAL True) (call_vm 64 2 []) =
     Some ((call_vm 64 2 [])\<lparr>stack := (stack (call_vm 64 2 []))(0 := BOOL_VAL True),
                              stackTop := 1\<rparr>)"
    using frame_bound_reported_push_unchecked [where v = "BOOL_VAL True",
        OF t64 c [of 64 "[]"] f [of 64 "[]"], THEN conjunct2, THEN conjunct2, THEN conjunct1]
    by (simp add: call_vm_simps bound_defs)
  show ?thesis
    using 1 ok 2 3 by blast
qed

section \<open>Error reports\<close>

text \<open>
  Claim C9, at the script
  \<^verbatim>\<open>fun f() {\<close>
  \<^verbatim>\<open>  return 1 + nil; }\<close>
  \<^verbatim>\<open>f();\<close>
  The runtime error in \<open>f\<close> writes the message, then one line for the frame of \<open>f\<close>
  and one for the script, each with the line of the instruction before the frame's
  \<open>ip\<close>; the operand stack, the frame stack and the list of open upvalues are reset.
  The result of \<open>interpret\<close> is \<open>INTERPRET_COMPILE_ERROR\<close>, not
  \<open>INTERPRET_RUNTIME_ERROR\<close>: the error path of \<open>OP_ADD\<close> returns the wrong constant.
\<close>

theorem runtimeError_in_call_result:
  "map_option (\<lambda>(res, vm). (res, err vm, stackTop vm, frameCount vm, openUpvalues vm))
     (interpret' example_host (Some 0) (compiled_vm [nested_script, nested_f])) =
   Some (INTERPRET_COMPILE_ERROR,
         ''Operands must be two numbers or two strings.\<newline>''
           @ ''[line 2] in f()\<newline>'' @ ''[line 3] in script\<newline>'',
         0, 0, None)"
  apply (simp add: interpret'_def compiled_vm_def nested_script_def nested_f_def eval_defs)
  apply (subst run.simps, simp add: eval_defs)
  apply (subst run.simps, simp add: eval_defs)
  apply (subst run.simps, simp add: eval_defs)
  apply (subst run.simps, simp add: eval_defs)
  apply (subst run.simps, simp add: eval_defs)
  done

section \<open>Paths of upvalues\<close>

lemma uv_path_append:
  "uv_path heap a (xs @ ys) b \<longleftrightarrow> (\<exists>c. uv_path heap a xs c \<and> uv_path heap c ys b)"
  by (induction xs arbitrary: a) auto

lemma uv_path_bound: "uv_path heap a ps b \<Longrightarrow> p \<in> set ps \<Longrightarrow> p < length heap"
  by (induction ps arbitrary: a) auto

lemma uv_path_alloc: "uv_path heap a ps b \<Longrightarrow> uv_path (heap @ [u]) a ps b"
  by (induction ps arbitrary: a) (auto simp: nth_append)

lemma uv_path_update:
  "q \<notin> set ps \<Longrightarrow> uv_path (heap[q := u]) a ps b \<longleftrightarrow> uv_path heap a ps b"
  by (induction ps arbitrary: a) auto

lemma uv_path_redirect:
  "uv_path heap a xs c \<Longrightarrow> xs \<noteq> [] \<Longrightarrow> distinct xs \<Longrightarrow>
   uv_path (heap[last xs := (heap ! last xs)\<lparr>next := d\<rparr>]) a xs d"
proof (induction xs arbitrary: a)
  case Nil
  then show ?case by simp
next
  case (Cons x xs)
  show ?case
  proof (cases "xs = []")
    case True
    with Cons.prems show ?thesis by simp
  next
    case False
    with Cons.prems have "x \<noteq> last xs"
      by auto
    with Cons False show ?thesis
      by auto
  qed
qed

lemma uv_path_start:
  "uv_path heap a ps b \<Longrightarrow> a = (if ps = [] then b else Some (hd ps))"
  by (cases ps) auto

text \<open>Strictly descending lists of slots.\<close>

lemma desc_distinct: "sorted_wrt (>) (ls :: int list) \<Longrightarrow> distinct ls"
  by (induction ls) auto

lemma capture_index_simps:
  "capture_index local [] = 0"
  "capture_index local (l # ls) = (if local < l then Suc (capture_index local ls) else 0)"
  by (simp_all add: capture_index_def)

lemma capture_index_le: "capture_index local ls \<le> length ls"
  by (simp add: capture_index_def length_takeWhile_le)

lemma captureWalk_path:
  assumes "uv_path heap a ps None"
    and "map (\<lambda>p. location (heap ! p)) ps = map Slot ls"
  shows "captureWalk heap local prev a =
           Some (if capture_index local ls = 0 then prev
                 else Some (ps ! (capture_index local ls - 1)),
                 if capture_index local ls < length ps
                 then Some (ps ! capture_index local ls) else None)"
  using assms
proof (induction ps arbitrary: a prev ls)
  case Nil
  then show ?case
    by (subst captureWalk.simps) (simp add: capture_index_simps)
next
  case (Cons p ps)
  from Cons.prems(2) obtain l ls' where ls: "ls = l # ls'"
    and l: "location (heap ! p) = Slot l"
    and rest: "map (\<lambda>p. location (heap ! p)) ps = map Slot ls'"
    by (cases ls) auto
  from Cons.prems(1) have a: "a = Some p" and p: "p < length heap"
    and path: "uv_path heap (next (heap ! p)) ps None"
    by simp_all
  show ?case
  proof (cases "local < l")
    case True
    have "captureWalk heap local prev a = captureWalk heap local (Some p) (next (heap ! p))"
      using a p l True by (subst captureWalk.simps) (simp add: deref_def)
    also have "\<dots> = Some (if capture_index local ls' = 0 then Some p
                 else Some (ps ! (capture_index local ls' - 1)),
                 if capture_index local ls' < length ps
                 then Some (ps ! capture_index local ls') else None)"
      by (rule Cons.IH [OF path rest])
    finally show ?thesis
      using True by (auto simp: ls capture_index_simps nth_Cons')
  next
    case False
    then show ?thesis
      using a p l by (subst captureWalk.simps) (simp add: deref_def ls capture_index_simps)
  qed
qed

lemma desc_capture_index_found:
  "sorted_wrt (>) ls \<Longrightarrow> local \<in> set ls \<Longrightarrow>
   capture_index local ls < length ls \<and> ls ! capture_index local ls = local"
  by (induction ls) (auto simp: capture_index_simps)

lemma desc_capture_index_not_found:
  "capture_index local ls < length ls \<Longrightarrow> ls ! capture_index local ls = local \<Longrightarrow>
   local \<in> set ls"
  by (metis nth_mem)

lemma desc_insert:
  "sorted_wrt (>) ls \<Longrightarrow> local \<notin> set ls \<Longrightarrow>
   sorted_wrt (>) (take (capture_index local ls) ls @ local # drop (capture_index local ls) ls)"
proof (induction ls)
  case Nil
  then show ?case by (simp add: capture_index_simps)
next
  case (Cons l ls)
  have set: "set (take k ls @ local # drop k ls) = insert local (set ls)" for k
    by (metis append_take_drop_id list.simps(15) set_append Un_insert_right)
  show ?case
  proof (cases "local < l")
    case True
    with Cons show ?thesis
      by (auto simp: capture_index_simps set simp del: set_append)
  next
    case False
    with Cons.prems show ?thesis
      by (auto simp: capture_index_simps)
  qed
qed

lemma open_list_facts:
  assumes "open_list vm ps ls"
  shows "length ps = length ls" and "distinct ps" and "distinct ls"
    and "uv_path (heap_upvalues vm) (openUpvalues vm) ps None"
    and "map (\<lambda>p. location (heap_upvalues vm ! p)) ps = map Slot ls"
    and "sorted_wrt (>) ls"
    and "\<And>p. p \<in> set ps \<Longrightarrow> p < length (heap_upvalues vm)"
    and "\<And>i. i < length ps \<Longrightarrow> location (heap_upvalues vm ! (ps ! i)) = Slot (ls ! i)"
proof -
  from assms show path: "uv_path (heap_upvalues vm) (openUpvalues vm) ps None"
    and m: "map (\<lambda>p. location (heap_upvalues vm ! p)) ps = map Slot ls"
    and s: "sorted_wrt (>) ls"
    by (simp_all add: open_list_def)
  from m show len: "length ps = length ls"
    by (rule map_eq_imp_length_eq)
  from s show dl: "distinct ls"
    by (rule desc_distinct)
  then have "distinct (map Slot ls)"
    by (simp add: distinct_map inj_on_def)
  with m show "distinct ps"
    by (metis distinct_map)
  show "p < length (heap_upvalues vm)" if "p \<in> set ps" for p
    using path that by (rule uv_path_bound)
  show "location (heap_upvalues vm ! (ps ! i)) = Slot (ls ! i)" if "i < length ps" for i
    using m that len by (metis nth_map)
qed

lemma captureUpvalue_found:
  assumes "open_list vm ps ls" and "local \<in> set ls"
  shows "captureUpvalue local vm = Some (ps ! capture_index local ls, vm)"
proof -
  note f = open_list_facts [OF assms(1)]
  let ?k = "capture_index local ls"
  have k: "?k < length ps" "ls ! ?k = local"
    using desc_capture_index_found [OF f(6) assms(2)] f(1) by simp_all
  have walk: "captureWalk (heap_upvalues vm) local None (openUpvalues vm) =
      Some (if ?k = 0 then None else Some (ps ! (?k - 1)), Some (ps ! ?k))"
    using captureWalk_path [OF f(4) f(5), of local None] k(1) by simp
  have "ps ! ?k < length (heap_upvalues vm)"
    using f(7) k(1) by simp
  moreover have "location (heap_upvalues vm ! (ps ! ?k)) = Slot local"
    using f(8) k by simp
  ultimately show ?thesis
    by (simp add: captureUpvalue_def walk deref_def)
qed

lemma last_take_nth:
  assumes "0 < k" and "k \<le> length ps"
  shows "last (take k ps) = ps ! (k - 1)"
proof -
  have "take k ps \<noteq> []"
    using assms by auto
  then have "last (take k ps) = take k ps ! (length (take k ps) - 1)"
    by (rule last_conv_nth)
  also have "\<dots> = ps ! (k - 1)"
    using assms by simp
  finally show ?thesis .
qed

lemma open_list_insert:
  assumes ol: "open_list vm ps ls" and new: "local \<notin> set ls"
    and k: "k = capture_index local ls"
    and n: "n = length (heap_upvalues vm)"
    and node: "node = \<lparr>location = Slot local, closed = NIL_VAL,
                      next = (if k < length ps then Some (ps ! k) else None)\<rparr>"
    and heap1: "heap1 = heap_upvalues vm @ [node]"
    and vm': "vm' = (if k = 0 then vm\<lparr>heap_upvalues := heap1, openUpvalues := Some n\<rparr>
                    else vm\<lparr>heap_upvalues :=
                              heap1[ps ! (k - 1) := (heap1 ! (ps ! (k - 1)))\<lparr>next := Some n\<rparr>]\<rparr>)"
  shows "open_list vm' (take k ps @ n # drop k ps) (take k ls @ local # drop k ls)"
proof -
  note f = open_list_facts [OF ol]
  let ?heap = "heap_upvalues vm"
  let ?xs = "take k ps" and ?ys = "drop k ps"
  let ?c = "if k < length ps then Some (ps ! k) else None"
  have kle: "k \<le> length ps"
    using capture_index_le [of local ls] f(1) k by simp
  from f(4) obtain c where p1: "uv_path ?heap (openUpvalues vm) ?xs c"
    and p2: "uv_path ?heap c ?ys None"
    using uv_path_append [of ?heap "openUpvalues vm" ?xs ?ys None] by auto
  have c: "c = ?c"
    using uv_path_start [OF p2] by (simp add: hd_drop_conv_nth)
  have a1: "uv_path heap1 (openUpvalues vm) ?xs c" and a2: "uv_path heap1 c ?ys None"
    using p1 p2 by (simp_all add: heap1 uv_path_alloc)
  have a3: "uv_path heap1 (Some n) (n # ?ys) None"
    using a2 by (simp add: heap1 n node c)
  have old: "p < n" if "p \<in> set ps" for p
    using f(7) that n by simp
  have path: "uv_path (heap_upvalues vm') (openUpvalues vm') (?xs @ n # ?ys) None"
  proof (cases "k = 0")
    case True
    with a3 show ?thesis
      by (simp add: vm')
  next
    case False
    let ?q = "ps ! (k - 1)"
    let ?heap2 = "heap1[?q := (heap1 ! ?q)\<lparr>next := Some n\<rparr>]"
    have xs: "?xs \<noteq> []" "distinct ?xs" "last ?xs = ?q"
      using False kle f(2) by (auto simp: last_take_nth)
    have q: "?q \<in> set ?xs"
      using xs(1,3) last_in_set by metis
    then have "?q \<in> set ps"
      by (rule in_set_takeD)
    then have qn: "?q \<noteq> n"
      using old by auto
    have "set ?xs \<inter> set ?ys = {}"
      using f(2) by (metis append_take_drop_id distinct_append)
    with q have qys: "?q \<notin> set ?ys"
      by auto
    have b1: "uv_path ?heap2 (openUpvalues vm) ?xs (Some n)"
      using uv_path_redirect [OF a1 xs(1,2), of "Some n"] by (simp add: xs(3))
    have "?q \<notin> set (n # ?ys)"
      using qn qys by simp
    then have b2: "uv_path ?heap2 (Some n) (n # ?ys) None"
      using a3 uv_path_update [of ?q "n # ?ys" heap1] by blast
    show ?thesis
      using False b1 b2 by (auto simp: vm' uv_path_append)
  qed
  have loc: "location (heap_upvalues vm' ! p) = location (?heap ! p)" if "p \<in> set ps" for p
  proof -
    have "p < length ?heap"
      using f(7) that by simp
    then show ?thesis
      by (cases "k = 0") (auto simp: vm' heap1 nth_append nth_list_update)
  qed
  have locn: "location (heap_upvalues vm' ! n) = Slot local"
  proof (cases "k = 0")
    case True
    then show ?thesis
      by (simp add: vm' heap1 n node)
  next
    case False
    then have "ps ! (k - 1) \<in> set ps"
      using kle by simp
    then have "ps ! (k - 1) \<noteq> n"
      using old by auto
    with False show ?thesis
      by (simp add: vm' heap1 n node)
  qed
  have "map (\<lambda>p. location (heap_upvalues vm' ! p)) ps = map Slot ls"
    using loc f(5) by (metis (no_types, lifting) map_eq_conv)
  then have m: "map (\<lambda>p. location (heap_upvalues vm' ! p)) ?xs = map Slot (take k ls)"
      "map (\<lambda>p. location (heap_upvalues vm' ! p)) ?ys = map Slot (drop k ls)"
    by (metis take_map, metis drop_map)
  show ?thesis
    unfolding open_list_def
    using path m locn desc_insert [OF f(6) new] by (simp add: k)
qed

lemma captureUpvalue_new:
  assumes ol: "open_list vm ps ls" and new: "local \<notin> set ls"
    and k: "k = capture_index local ls"
    and n: "n = length (heap_upvalues vm)"
    and node: "node = \<lparr>location = Slot local, closed = NIL_VAL,
                      next = (if k < length ps then Some (ps ! k) else None)\<rparr>"
    and heap1: "heap1 = heap_upvalues vm @ [node]"
    and vm': "vm' = (if k = 0 then vm\<lparr>heap_upvalues := heap1, openUpvalues := Some n\<rparr>
                    else vm\<lparr>heap_upvalues :=
                              heap1[ps ! (k - 1) := (heap1 ! (ps ! (k - 1)))\<lparr>next := Some n\<rparr>]\<rparr>)"
  shows "captureUpvalue local vm = Some (n, vm')"
proof -
  note f = open_list_facts [OF ol]
  have walk: "captureWalk (heap_upvalues vm) local None (openUpvalues vm) =
      Some (if k = 0 then None else Some (ps ! (k - 1)),
            if k < length ps then Some (ps ! k) else None)"
    using captureWalk_path [OF f(4) f(5), of local None] k by simp
  have nf: "location (heap_upvalues vm ! (ps ! k)) \<noteq> Slot local" if "k < length ps"
    using f(8) [OF that] new that f(1) by (metis Location.inject nth_mem)
  have lt: "ps ! k < length (heap_upvalues vm)" if "k < length ps"
    using f(7) that by simp
  show ?thesis
    using nf lt
    by (cases "k < length ps"; cases "k = 0";
        simp add: captureUpvalue_def walk deref_def vm' heap1 node n newUpvalue_def Let_def)
qed

section \<open>Closing upvalues\<close>

lemma desc_filter_below:
  "sorted_wrt (>) (l # ls) \<Longrightarrow> l < last' \<Longrightarrow>
   filter (\<lambda>x. last' \<le> x) (l # ls :: int list) = []"
  by (auto simp: filter_empty_conv)

lemma desc_filter_drop:
  "sorted_wrt (>) ls \<Longrightarrow>
   drop (length (filter (\<lambda>x. last' \<le> x) ls)) ls = filter (\<lambda>x. x < last') (ls :: int list)"
proof (induction ls)
  case Nil
  then show ?case by simp
next
  case (Cons l ls)
  show ?case
  proof (cases "last' \<le> l")
    case True
    with Cons show ?thesis by simp
  next
    case False
    then have "filter (\<lambda>x. last' \<le> x) (l # ls) = []"
      using Cons.prems desc_filter_below [of l ls last'] by simp
    moreover have "filter (\<lambda>x. x < last') (l # ls) = l # ls"
      using Cons.prems False by (auto simp: filter_id_conv)
    ultimately show ?thesis by simp
  qed
qed

lemma closeUpvalues_open_list:
  assumes "open_list vm ps ls"
    and "\<forall>l\<in>set ls. last' \<le> l \<longrightarrow> in_stack l"
  shows "\<exists>vm'. closeUpvalues last' vm = Some vm'
           \<and> open_list vm' (drop (length (filter (\<lambda>x. last' \<le> x) ls)) ps)
                            (drop (length (filter (\<lambda>x. last' \<le> x) ls)) ls)
           \<and> vm' = vm\<lparr>heap_upvalues := heap_upvalues vm', openUpvalues := openUpvalues vm'\<rparr>
           \<and> length (heap_upvalues vm') = length (heap_upvalues vm)
           \<and> (\<forall>i<length ps. heap_upvalues vm' ! (ps ! i) =
                  (if last' \<le> ls ! i
                   then (heap_upvalues vm ! (ps ! i))\<lparr>closed := stack vm (ls ! i), location := Closed\<rparr>
                   else heap_upvalues vm ! (ps ! i)))
           \<and> (\<forall>q. q \<notin> set ps \<longrightarrow> heap_upvalues vm' ! q = heap_upvalues vm ! q)"
  using assms
proof (induction ps arbitrary: vm ls)
  case Nil
  then have "openUpvalues vm = None" and "ls = []"
    by (simp_all add: open_list_def)
  then have "closeUpvalues last' vm = Some vm"
    by (subst closeUpvalues.simps) simp
  with Nil.prems(1) \<open>ls = []\<close> show ?case
    by simp
next
  case (Cons p ps)
  note f = open_list_facts [OF Cons.prems(1)]
  from f(1) obtain l ls' where ls: "ls = l # ls'"
    by (cases ls) auto
  let ?heap = "heap_upvalues vm"
  let ?u = "?heap ! p"
  have hd: "openUpvalues vm = Some p" and p: "p < length ?heap"
    and path: "uv_path ?heap (next ?u) ps None"
    using f(4) by simp_all
  have l: "location ?u = Slot l" and rest: "map (\<lambda>q. location (?heap ! q)) ps = map Slot ls'"
    using f(5) by (simp_all add: ls)
  have pps: "p \<notin> set ps" and sorted: "sorted_wrt (>) ls'"
    using f(2,6) by (simp_all add: ls)
  show ?case
  proof (cases "last' \<le> l")
    case True
    let ?vm1 = "vm\<lparr>heap_upvalues := ?heap[p := ?u\<lparr>closed := stack vm l, location := Closed\<rparr>],
                    openUpvalues := next ?u\<rparr>"
    have inl: "in_stack l"
      using Cons.prems(2) True by (simp add: ls)
    have step: "closeUpvalues last' vm = closeUpvalues last' ?vm1"
      using hd p l True inl by (subst closeUpvalues.simps) (simp add: deref_def)
    have "location (heap_upvalues ?vm1 ! q) = location (?heap ! q)" if "q \<in> set ps" for q
    proof -
      from that pps have "p \<noteq> q"
        by blast
      then show ?thesis
        by simp
    qed
    then have "map (\<lambda>q. location (heap_upvalues ?vm1 ! q)) ps = map (\<lambda>q. location (?heap ! q)) ps"
      by simp
    then have "map (\<lambda>q. location (heap_upvalues ?vm1 ! q)) ps = map Slot ls'"
      using rest by simp
    then have ol1: "open_list ?vm1 ps ls'"
      using path pps sorted by (simp add: open_list_def uv_path_update)
    have in1: "\<forall>x\<in>set ls'. last' \<le> x \<longrightarrow> in_stack x"
      using Cons.prems(2) by (simp add: ls)
    from Cons.IH [OF ol1 in1] obtain vm' where
      r: "closeUpvalues last' ?vm1 = Some vm'"
      and o: "open_list vm' (drop (length (filter (\<lambda>x. last' \<le> x) ls')) ps)
                            (drop (length (filter (\<lambda>x. last' \<le> x) ls')) ls')"
      and e: "vm' = ?vm1\<lparr>heap_upvalues := heap_upvalues vm', openUpvalues := openUpvalues vm'\<rparr>"
      and n: "length (heap_upvalues vm') = length (heap_upvalues ?vm1)"
      and c: "\<forall>i<length ps. heap_upvalues vm' ! (ps ! i) =
                  (if last' \<le> ls' ! i
                   then (heap_upvalues ?vm1 ! (ps ! i))\<lparr>closed := stack ?vm1 (ls' ! i),
                                                          location := Closed\<rparr>
                   else heap_upvalues ?vm1 ! (ps ! i))"
      and u: "\<forall>q. q \<notin> set ps \<longrightarrow> heap_upvalues vm' ! q = heap_upvalues ?vm1 ! q"
      by blast
    have e': "vm' = vm\<lparr>heap_upvalues := heap_upvalues vm', openUpvalues := openUpvalues vm'\<rparr>"
      by (subst e) simp
    have hp: "heap_upvalues vm' ! p = ?u\<lparr>closed := stack vm l, location := Closed\<rparr>"
      using u pps p by simp
    have other: "heap_upvalues ?vm1 ! (ps ! i) = ?heap ! (ps ! i)" if "i < length ps" for i
      using that pps by (metis VM.select_convs(9) VM.surjective VM.update_convs(6,9)
          nth_list_update_neq nth_mem)
    have c': "heap_upvalues vm' ! ((p # ps) ! i) =
                  (if last' \<le> ls ! i
                   then (?heap ! ((p # ps) ! i))\<lparr>closed := stack vm (ls ! i), location := Closed\<rparr>
                   else ?heap ! ((p # ps) ! i))" if "i < length (p # ps)" for i
    proof (cases i)
      case 0
      then show ?thesis
        using hp True by (simp add: ls)
    next
      case (Suc j)
      then have "j < length ps"
        using that by simp
      then show ?thesis
        using c other [of j] by (simp add: ls Suc)
    qed
    have u': "heap_upvalues vm' ! q = ?heap ! q" if "q \<notin> set (p # ps)" for q
      using u that by simp
    show ?thesis
      using step r o e' n c' u' True by (simp add: ls)
  next
    case False
    have stop: "closeUpvalues last' vm = Some vm"
      using hd p l False by (subst closeUpvalues.simps) (simp add: deref_def)
    have none: "filter (\<lambda>x. last' \<le> x) ls = []"
      using desc_filter_below [of l ls' last'] f(6) False by (simp add: ls)
    have "\<not> last' \<le> ls ! i" if "i < length ls" for i
      using none that by (metis filter_empty_conv nth_mem)
    then show ?thesis
      using stop none Cons.prems(1) f(1) by simp
  qed
qed

section \<open>The order of the open-upvalue list\<close>

text \<open>
  Claim C7. Let the open-upvalue list consist of the upvalues \<open>ps\<close> with the stack
  slots \<open>ls\<close>, strictly descending; so no slot occurs twice. Let \<open>k\<close> be the number
  of leading slots above \<open>local\<close>.
  \<^item> If \<open>local\<close> has an open upvalue, it is the one at position \<open>k\<close>, and
    \<open>captureUpvalue\<close> returns it and changes nothing.
  \<^item> Otherwise \<open>captureUpvalue\<close> returns the address \<open>n\<close> of a new upvalue object,
    and the list then consists of the first \<open>k\<close> old entries, the new one with
    location \<open>local\<close>, and the remaining old entries: it is strictly descending again.
    Nothing but the heap of upvalues and the list head changes, and the old upvalues
    keep their locations and closed values.
\<close>

theorem captureUpvalue_keeps_list_descending:
  assumes "open_list vm ps ls"
    and "k = capture_index local ls"
    and "n = length (heap_upvalues vm)"
  shows "distinct ls
       \<and> (local \<in> set ls \<longrightarrow>
            k < length ps \<and> ls ! k = local \<and> captureUpvalue local vm = Some (ps ! k, vm))
       \<and> (local \<notin> set ls \<longrightarrow>
            (\<exists>vm'. captureUpvalue local vm = Some (n, vm')
               \<and> open_list vm' (take k ps @ n # drop k ps) (take k ls @ local # drop k ls)
               \<and> vm' = vm\<lparr>heap_upvalues := heap_upvalues vm', openUpvalues := openUpvalues vm'\<rparr>
               \<and> length (heap_upvalues vm') = Suc n
               \<and> closed (heap_upvalues vm' ! n) = NIL_VAL
               \<and> (\<forall>p<n. location (heap_upvalues vm' ! p) = location (heap_upvalues vm ! p)
                        \<and> closed (heap_upvalues vm' ! p) = closed (heap_upvalues vm ! p))))"
proof (intro conjI impI)
  note f = open_list_facts [OF assms(1)]
  show "distinct ls"
    by (rule f(3))
  {
    assume in_ls: "local \<in> set ls"
    show "k < length ps" and "ls ! k = local"
      using desc_capture_index_found [OF f(6) in_ls] f(1) assms(2) by simp_all
    show "captureUpvalue local vm = Some (ps ! k, vm)"
      using captureUpvalue_found [OF assms(1) in_ls] assms(2) by simp
  }
  assume new: "local \<notin> set ls"
  define node where "node = \<lparr>location = Slot local, closed = NIL_VAL,
                               next = (if k < length ps then Some (ps ! k) else None)\<rparr>"
  define heap1 where "heap1 = heap_upvalues vm @ [node]"
  define vm' where "vm' = (if k = 0 then vm\<lparr>heap_upvalues := heap1, openUpvalues := Some n\<rparr>
                    else vm\<lparr>heap_upvalues :=
                              heap1[ps ! (k - 1) := (heap1 ! (ps ! (k - 1)))\<lparr>next := Some n\<rparr>]\<rparr>)"
  have r: "captureUpvalue local vm = Some (n, vm')"
    using assms(1) new assms(2,3) node_def heap1_def vm'_def by (rule captureUpvalue_new)
  have o: "open_list vm' (take k ps @ n # drop k ps) (take k ls @ local # drop k ls)"
    using assms(1) new assms(2,3) node_def heap1_def vm'_def by (rule open_list_insert)
  have e: "vm' = vm\<lparr>heap_upvalues := heap_upvalues vm', openUpvalues := openUpvalues vm'\<rparr>"
    by (simp add: vm'_def)
  have len: "length (heap_upvalues vm') = Suc n"
    by (simp add: vm'_def heap1_def assms(3))
  have q: "ps ! (k - 1) < n" if "k \<noteq> 0"
  proof -
    have "k \<le> length ps"
      using capture_index_le [of local ls] f(1) assms(2) by simp
    with that have "ps ! (k - 1) \<in> set ps"
      by simp
    then show ?thesis
      using f(7) assms(3) by simp
  qed
  have cn: "closed (heap_upvalues vm' ! n) = NIL_VAL"
    using q by (cases "k = 0") (auto simp: vm'_def heap1_def node_def assms(3))
  have old: "location (heap_upvalues vm' ! p) = location (heap_upvalues vm ! p)
           \<and> closed (heap_upvalues vm' ! p) = closed (heap_upvalues vm ! p)" if "p < n" for p
    using that
    by (cases "k = 0") (auto simp: vm'_def heap1_def assms(3) nth_append nth_list_update)
  show "\<exists>vm'. captureUpvalue local vm = Some (n, vm')
               \<and> open_list vm' (take k ps @ n # drop k ps) (take k ls @ local # drop k ls)
               \<and> vm' = vm\<lparr>heap_upvalues := heap_upvalues vm', openUpvalues := openUpvalues vm'\<rparr>
               \<and> length (heap_upvalues vm') = Suc n
               \<and> closed (heap_upvalues vm' ! n) = NIL_VAL
               \<and> (\<forall>p<n. location (heap_upvalues vm' ! p) = location (heap_upvalues vm ! p)
                        \<and> closed (heap_upvalues vm' ! p) = closed (heap_upvalues vm ! p))"
    using r o e len cn old by blast
qed

lemma upvalue_vm_open_list: "open_list upvalue_vm [1, 0] [3, 1]"
  by (simp add: open_list_def upvalue_vm_def)

theorem captureUpvalue_keeps_list_descending_witness:
  "open_list upvalue_vm [1, 0] [3, 1]
   \<and> captureUpvalue 3 upvalue_vm = Some (1, upvalue_vm)
   \<and> (\<exists>vm'. captureUpvalue 2 upvalue_vm = Some (2, vm') \<and> open_list vm' [1, 2, 0] [3, 2, 1])"
proof -
  note o = upvalue_vm_open_list
  have n: "2 = length (heap_upvalues upvalue_vm)"
    by (simp add: upvalue_vm_def)
  have k3: "0 = capture_index 3 [3, 1]" and k2: "1 = capture_index 2 [3, 1]"
    by (simp_all add: capture_index_def)
  have "captureUpvalue 3 upvalue_vm = Some ([1, 0] ! 0, upvalue_vm)"
    using captureUpvalue_keeps_list_descending [OF o k3 n] by simp
  moreover have "\<exists>vm'. captureUpvalue 2 upvalue_vm = Some (2, vm')
      \<and> open_list vm' (take 1 [1, 0] @ 2 # drop 1 [1, 0]) (take 1 [3, 1] @ 2 # drop 1 [3, 1])"
    using captureUpvalue_keeps_list_descending [OF o k2 n] by auto
  ultimately show ?thesis
    using o by simp
qed

lemma desc_filter_take:
  "sorted_wrt (>) ls \<Longrightarrow>
   take (length (filter (\<lambda>x. limit \<le> x) ls)) ls = filter (\<lambda>x. limit \<le> x) (ls :: int list)"
proof (induction ls)
  case Nil
  then show ?case by simp
next
  case (Cons l ls)
  show ?case
  proof (cases "limit \<le> l")
    case True
    with Cons show ?thesis by simp
  next
    case False
    then have "filter (\<lambda>x. limit \<le> x) (l # ls) = []"
      using Cons.prems desc_filter_below [of l ls limit] by simp
    then show ?thesis by simp
  qed
qed

text \<open>
  Claim C6. Let the open-upvalue list consist of the upvalues \<open>ps\<close> with the stack
  slots \<open>ls\<close>, strictly descending, and let the slots at or above \<open>limit\<close> be slots
  of the stack array. Then \<open>closeUpvalues limit\<close> returns; the \<open>k\<close> entries it
  removes from the front of the list are exactly the entries with a slot at or above
  \<open>limit\<close>; the list that remains consists of the entries with a slot below \<open>limit\<close>,
  in their order; each removed upvalue has the value of its slot in \<open>closed\<close> and
  \<open>location\<close> pointing at that field; every other upvalue object is unchanged, and so
  is the rest of the machine.
\<close>

theorem closeUpvalues_closes_from_limit:
  assumes "open_list vm ps ls"
    and "\<forall>l\<in>set ls. limit \<le> l \<longrightarrow> in_stack l"
    and "k = length (filter (\<lambda>l. limit \<le> l) ls)"
  shows "\<exists>vm'. closeUpvalues limit vm = Some vm'
           \<and> take k ls = filter (\<lambda>l. limit \<le> l) ls
           \<and> open_list vm' (drop k ps) (filter (\<lambda>l. l < limit) ls)
           \<and> (\<forall>i<length ps. heap_upvalues vm' ! (ps ! i) =
                  (if limit \<le> ls ! i
                   then (heap_upvalues vm ! (ps ! i))\<lparr>closed := stack vm (ls ! i), location := Closed\<rparr>
                   else heap_upvalues vm ! (ps ! i)))
           \<and> (\<forall>q. q \<notin> set ps \<longrightarrow> heap_upvalues vm' ! q = heap_upvalues vm ! q)
           \<and> length (heap_upvalues vm') = length (heap_upvalues vm)
           \<and> vm' = vm\<lparr>heap_upvalues := heap_upvalues vm', openUpvalues := openUpvalues vm'\<rparr>"
proof -
  note f = open_list_facts [OF assms(1)]
  from closeUpvalues_open_list [OF assms(1,2)] obtain vm' where
    r: "closeUpvalues limit vm = Some vm'"
    and o: "open_list vm' (drop k ps) (drop k ls)"
    and e: "vm' = vm\<lparr>heap_upvalues := heap_upvalues vm', openUpvalues := openUpvalues vm'\<rparr>"
    and n: "length (heap_upvalues vm') = length (heap_upvalues vm)"
    and c: "\<forall>i<length ps. heap_upvalues vm' ! (ps ! i) =
                  (if limit \<le> ls ! i
                   then (heap_upvalues vm ! (ps ! i))\<lparr>closed := stack vm (ls ! i), location := Closed\<rparr>
                   else heap_upvalues vm ! (ps ! i))"
    and u: "\<forall>q. q \<notin> set ps \<longrightarrow> heap_upvalues vm' ! q = heap_upvalues vm ! q"
    unfolding assms(3) by blast
  have t: "take k ls = filter (\<lambda>l. limit \<le> l) ls"
    unfolding assms(3) using f(6) by (rule desc_filter_take)
  have "drop k ls = filter (\<lambda>l. l < limit) ls"
    unfolding assms(3) using f(6) by (rule desc_filter_drop)
  with o have o': "open_list vm' (drop k ps) (filter (\<lambda>l. l < limit) ls)"
    by simp
  show ?thesis
    using r t o' c u n e by blast
qed

theorem closeUpvalues_closes_from_limit_witness:
  "open_list upvalue_vm [1, 0] [3, 1]
   \<and> in_stack 3
   \<and> (\<exists>vm'. closeUpvalues 2 upvalue_vm = Some vm'
         \<and> open_list vm' [0] [1]
         \<and> heap_upvalues vm' ! 1 = \<lparr>location = Closed, closed = NUMBER_VAL 3, next = Some 0\<rparr>
         \<and> heap_upvalues vm' ! 0 = \<lparr>location = Slot 1, closed = NIL_VAL, next = None\<rparr>)"
proof -
  note o = upvalue_vm_open_list
  have b: "\<forall>l\<in>set [3, 1]. (2 :: int) \<le> l \<longrightarrow> in_stack l"
    by (simp add: bound_defs)
  have k: "1 = length (filter (\<lambda>l. (2 :: int) \<le> l) [3, 1])"
    by simp
  from closeUpvalues_closes_from_limit [OF o b k] obtain vm' where
    r: "closeUpvalues 2 upvalue_vm = Some vm'"
    and l: "open_list vm' (drop 1 [1, 0]) (filter (\<lambda>l. l < 2) [3, 1])"
    and c: "\<forall>i<length [1, 0 :: nat]. heap_upvalues vm' ! ([1, 0] ! i) =
                  (if 2 \<le> [3, 1 :: int] ! i
                   then (heap_upvalues upvalue_vm ! ([1, 0] ! i))
                          \<lparr>closed := stack upvalue_vm ([3, 1] ! i), location := Closed\<rparr>
                   else heap_upvalues upvalue_vm ! ([1, 0] ! i))"
    by blast
  have l': "open_list vm' [0] [1]"
    using l by simp
  have "heap_upvalues vm' ! 1 = \<lparr>location = Closed, closed = NUMBER_VAL 3, next = Some 0\<rparr>"
    using c [rule_format, of 0] by (simp add: upvalue_vm_def script_vm_def)
  moreover have "heap_upvalues vm' ! 0 = \<lparr>location = Slot 1, closed = NIL_VAL, next = None\<rparr>"
    using c [rule_format, of 1] by (simp add: upvalue_vm_def script_vm_def)
  moreover have "in_stack 3"
    by (simp add: bound_defs)
  ultimately show ?thesis
    using o r l' by blast
qed

section \<open>Returning from a call\<close>

text \<open>
  Claim C8. Let \<open>frame\<close> be the topmost frame, \<open>result\<close> the value on top of the
  operand stack, and let the open-upvalue list consist of the upvalues \<open>ps\<close> with the
  strictly descending slots \<open>ls\<close>, those at or above \<open>slots frame\<close> being slots of the
  stack array. \<open>OP_RETURN\<close> pops the result and closes the upvalues: the machine
  \<open>vm2\<close> after \<open>closeUpvalues\<close> keeps exactly the entries with a slot below
  \<open>slots frame\<close> open, and each closed upvalue holds the value of its slot.
  \<^item> If the frame was the only one, the script closure is popped as well and \<open>run\<close>
    returns \<open>INTERPRET_OK\<close> with no frame left.
  \<^item> Otherwise the frame count is decremented, the result is stored at
    \<open>slots frame\<close>, the stack top is the slot after it, and the loop goes on; the
    current frame then is the frame below the one that returned.
\<close>

theorem OP_RETURN_exec:
  assumes "current_frame vm = Some frame"
    and "in_stack (stackTop vm - 1)"
    and "result = stack vm (stackTop vm - 1)"
    and "open_list vm ps ls"
    and "\<forall>l\<in>set ls. slots frame \<le> l \<longrightarrow> in_stack l"
    and "k = length (filter (\<lambda>l. slots frame \<le> l) ls)"
  shows "\<exists>vm2. closeUpvalues (slots frame) (vm\<lparr>stackTop := stackTop vm - 1\<rparr>) = Some vm2
           \<and> open_list vm2 (drop k ps) (filter (\<lambda>l. l < slots frame) ls)
           \<and> (\<forall>i<length ps. heap_upvalues vm2 ! (ps ! i) =
                  (if slots frame \<le> ls ! i
                   then (heap_upvalues vm ! (ps ! i))\<lparr>closed := stack vm (ls ! i), location := Closed\<rparr>
                   else heap_upvalues vm ! (ps ! i)))
           \<and> (\<forall>q. q \<notin> set ps \<longrightarrow> heap_upvalues vm2 ! q = heap_upvalues vm ! q)
           \<and> length (heap_upvalues vm2) = length (heap_upvalues vm)
           \<and> vm2 = vm\<lparr>stackTop := stackTop vm - 1, heap_upvalues := heap_upvalues vm2,
                        openUpvalues := openUpvalues vm2\<rparr>
           \<and> (frameCount vm = 1 \<and> in_stack (stackTop vm - 2) \<longrightarrow>
                exec h OP_RETURN vm =
                  Some (Return INTERPRET_OK (vm2\<lparr>frameCount := 0, stackTop := stackTop vm - 2\<rparr>)))
           \<and> (1 < frameCount vm \<and> in_stack (slots frame) \<longrightarrow>
                exec h OP_RETURN vm =
                  Some (Continue (vm2\<lparr>frameCount := frameCount vm - 1,
                                      stack := (stack vm)(slots frame := result),
                                      stackTop := slots frame + 1\<rparr>))
                \<and> current_frame (vm2\<lparr>frameCount := frameCount vm - 1,
                                      stack := (stack vm)(slots frame := result),
                                      stackTop := slots frame + 1\<rparr>) =
                    Some (frames vm (frameCount vm - 2)))"
proof -
  let ?vm1 = "vm\<lparr>stackTop := stackTop vm - 1\<rparr>"
  have pop: "pop vm = Some (result, ?vm1)"
    using assms(2,3) by (simp add: pop_def Let_def)
  have o1: "open_list ?vm1 ps ls"
    using assms(4) by (simp add: open_list_def)
  from closeUpvalues_open_list [OF o1 assms(5)] obtain vm2 where
    r: "closeUpvalues (slots frame) ?vm1 = Some vm2"
    and o0: "open_list vm2 (drop k ps) (drop k ls)"
    and c: "\<forall>i<length ps. heap_upvalues vm2 ! (ps ! i) =
                  (if slots frame \<le> ls ! i
                   then (heap_upvalues ?vm1 ! (ps ! i))\<lparr>closed := stack ?vm1 (ls ! i),
                                                         location := Closed\<rparr>
                   else heap_upvalues ?vm1 ! (ps ! i))"
    and e: "vm2 = ?vm1\<lparr>heap_upvalues := heap_upvalues vm2, openUpvalues := openUpvalues vm2\<rparr>"
    and n: "length (heap_upvalues vm2) = length (heap_upvalues ?vm1)"
    and u: "\<forall>q. q \<notin> set ps \<longrightarrow> heap_upvalues vm2 ! q = heap_upvalues ?vm1 ! q"
    unfolding assms(6) by blast
  have "drop k ls = filter (\<lambda>l. l < slots frame) ls"
    unfolding assms(6) using open_list_facts(6) [OF assms(4)] by (rule desc_filter_drop)
  with o0 have o: "open_list vm2 (drop k ps) (filter (\<lambda>l. l < slots frame) ls)"
    by simp
  have e': "vm2 = vm\<lparr>stackTop := stackTop vm - 1, heap_upvalues := heap_upvalues vm2,
                      openUpvalues := openUpvalues vm2\<rparr>"
    by (subst e) simp
  have fields: "frameCount vm2 = frameCount vm" "stackTop vm2 = stackTop vm - 1"
      "stack vm2 = stack vm" "frames vm2 = frames vm"
    by (subst e', simp)+
  have c': "\<forall>i<length ps. heap_upvalues vm2 ! (ps ! i) =
                  (if slots frame \<le> ls ! i
                   then (heap_upvalues vm ! (ps ! i))\<lparr>closed := stack vm (ls ! i), location := Closed\<rparr>
                   else heap_upvalues vm ! (ps ! i))"
    using c by simp
  have fc: "0 < frameCount vm" "frameCount vm \<le> FRAMES_MAX"
    using assms(1) by (simp_all add: current_frame_def split: if_splits)
  have ok: "exec h OP_RETURN vm =
      Some (Return INTERPRET_OK (vm2\<lparr>frameCount := 0, stackTop := stackTop vm - 2\<rparr>))"
    if "frameCount vm = 1 \<and> in_stack (stackTop vm - 2)"
    using that assms(1) pop r by (simp add: fields pop_def Let_def)
  have cont: "exec h OP_RETURN vm =
      Some (Continue (vm2\<lparr>frameCount := frameCount vm - 1,
                          stack := (stack vm)(slots frame := result),
                          stackTop := slots frame + 1\<rparr>))"
    if "1 < frameCount vm \<and> in_stack (slots frame)"
    using that assms(1) pop r by (simp add: fields push_def Let_def)
  have cur: "current_frame (vm2\<lparr>frameCount := frameCount vm - 1,
                                 stack := (stack vm)(slots frame := result),
                                 stackTop := slots frame + 1\<rparr>) =
      Some (frames vm (frameCount vm - 2))"
    if "1 < frameCount vm \<and> in_stack (slots frame)"
  proof -
    have "frameCount vm - 1 - 1 = frameCount vm - 2"
      by simp
    then show ?thesis
      using that fc by (simp add: current_frame_def fields)
  qed
  show ?thesis
  proof (rule exI [of _ vm2], intro conjI impI)
    show "closeUpvalues (slots frame) ?vm1 = Some vm2"
      by (rule r)
    show "open_list vm2 (drop k ps) (filter (\<lambda>l. l < slots frame) ls)"
      by (rule o)
    show "\<forall>i<length ps. heap_upvalues vm2 ! (ps ! i) =
                  (if slots frame \<le> ls ! i
                   then (heap_upvalues vm ! (ps ! i))\<lparr>closed := stack vm (ls ! i), location := Closed\<rparr>
                   else heap_upvalues vm ! (ps ! i))"
      by (rule c')
    show "\<forall>q. q \<notin> set ps \<longrightarrow> heap_upvalues vm2 ! q = heap_upvalues vm ! q"
      using u by simp
    show "length (heap_upvalues vm2) = length (heap_upvalues vm)"
      using n by simp
    show "vm2 = vm\<lparr>stackTop := stackTop vm - 1, heap_upvalues := heap_upvalues vm2,
                      openUpvalues := openUpvalues vm2\<rparr>"
      by (rule e')
    show "exec h OP_RETURN vm =
        Some (Return INTERPRET_OK (vm2\<lparr>frameCount := 0, stackTop := stackTop vm - 2\<rparr>))"
      if "frameCount vm = 1 \<and> in_stack (stackTop vm - 2)"
      using that by (rule ok)
    show "exec h OP_RETURN vm =
        Some (Continue (vm2\<lparr>frameCount := frameCount vm - 1,
                            stack := (stack vm)(slots frame := result),
                            stackTop := slots frame + 1\<rparr>))"
      if "1 < frameCount vm \<and> in_stack (slots frame)"
      using that by (rule cont)
    show "current_frame (vm2\<lparr>frameCount := frameCount vm - 1,
                                 stack := (stack vm)(slots frame := result),
                                 stackTop := slots frame + 1\<rparr>) =
        Some (frames vm (frameCount vm - 2))"
      if "1 < frameCount vm \<and> in_stack (slots frame)"
      using that by (rule cur)
  qed
qed


lemma return_vm_simps:
  "current_frame return_vm = Some \<lparr>closure = 1, ip = 8, slots = 1\<rparr>"
  "stackTop return_vm = 5" "frameCount return_vm = 2"
  "stack return_vm 4 = NUMBER_VAL 9" "stack return_vm 2 = NUMBER_VAL 5"
  "heap_upvalues return_vm = [\<lparr>location = Slot 2, closed = NIL_VAL, next = None\<rparr>]"
  "frames return_vm 0 = \<lparr>closure = 0, ip = 2, slots = 0\<rparr>"
  "open_list return_vm [0] [2]"
  by (simp_all add: return_vm_def call_vm_def current_frame_def FRAMES_MAX_def open_list_def)

theorem OP_RETURN_exec_witness:
  "current_frame return_vm = Some \<lparr>closure = 1, ip = 8, slots = 1\<rparr>
   \<and> open_list return_vm [0] [2]
   \<and> in_stack 2
   \<and> (\<exists>vm2. exec example_host OP_RETURN return_vm =
                Some (Continue (vm2\<lparr>frameCount := 1,
                                    stack := (stack return_vm)(1 := NUMBER_VAL 9),
                                    stackTop := 2\<rparr>))
          \<and> current_frame (vm2\<lparr>frameCount := 1,
                                    stack := (stack return_vm)(1 := NUMBER_VAL 9),
                                    stackTop := 2\<rparr>) = Some \<lparr>closure = 0, ip = 2, slots = 0\<rparr>
          \<and> open_list vm2 [] []
          \<and> heap_upvalues vm2 ! 0 = \<lparr>location = Closed, closed = NUMBER_VAL 5, next = None\<rparr>)
   \<and> current_frame (script_vm [1, 28] [] [NIL_VAL] 2) = Some \<lparr>closure = 0, ip = 2, slots = 0\<rparr>
   \<and> open_list (script_vm [1, 28] [] [NIL_VAL] 2) [] []
   \<and> (\<exists>vm2. exec example_host OP_RETURN (script_vm [1, 28] [] [NIL_VAL] 2) =
                Some (Return INTERPRET_OK (vm2\<lparr>frameCount := 0, stackTop := 0\<rparr>))
          \<and> open_list vm2 [] [])"
proof -
  note r = return_vm_simps
  have a2: "in_stack (stackTop return_vm - 1)"
    by (simp add: r bound_defs)
  have a3: "NUMBER_VAL 9 = stack return_vm (stackTop return_vm - 1)"
    by (simp add: r)
  have a5: "\<forall>l\<in>set [2]. slots \<lparr>closure = 1, ip = 8, slots = 1\<rparr> \<le> l \<longrightarrow> in_stack l"
    by (simp add: bound_defs)
  have a6: "1 = length (filter (\<lambda>l. slots \<lparr>closure = 1, ip = 8, slots = 1\<rparr> \<le> l) [2 :: int])"
    by simp
  from OP_RETURN_exec [OF r(1) a2 a3 r(8) a5 a6, of example_host] obtain vm2 where
    o: "open_list vm2 (drop 1 [0]) (filter (\<lambda>l. l < slots \<lparr>closure = 1, ip = 8, slots = 1\<rparr>) [2])"
    and c: "\<forall>i<length [0 :: nat]. heap_upvalues vm2 ! ([0] ! i) =
               (if slots \<lparr>closure = 1, ip = 8, slots = 1\<rparr> \<le> [2] ! i
                then (heap_upvalues return_vm ! ([0] ! i))
                       \<lparr>closed := stack return_vm ([2] ! i), location := Closed\<rparr>
                else heap_upvalues return_vm ! ([0] ! i))"
    and x: "1 < frameCount return_vm \<and> in_stack (slots \<lparr>closure = 1, ip = 8, slots = 1\<rparr>) \<longrightarrow>
            exec example_host OP_RETURN return_vm =
              Some (Continue (vm2\<lparr>frameCount := frameCount return_vm - 1,
                               stack := (stack return_vm)
                                 (slots \<lparr>closure = 1, ip = 8, slots = 1\<rparr> := NUMBER_VAL 9),
                               stackTop := slots \<lparr>closure = 1, ip = 8, slots = 1\<rparr> + 1\<rparr>))
            \<and> current_frame (vm2\<lparr>frameCount := frameCount return_vm - 1,
                               stack := (stack return_vm)
                                 (slots \<lparr>closure = 1, ip = 8, slots = 1\<rparr> := NUMBER_VAL 9),
                               stackTop := slots \<lparr>closure = 1, ip = 8, slots = 1\<rparr> + 1\<rparr>) =
                Some (frames return_vm (frameCount return_vm - 2))"
    by blast
  have first: "\<exists>vm2. exec example_host OP_RETURN return_vm =
                Some (Continue (vm2\<lparr>frameCount := 1,
                                    stack := (stack return_vm)(1 := NUMBER_VAL 9),
                                    stackTop := 2\<rparr>))
          \<and> current_frame (vm2\<lparr>frameCount := 1,
                                    stack := (stack return_vm)(1 := NUMBER_VAL 9),
                                    stackTop := 2\<rparr>) = Some \<lparr>closure = 0, ip = 2, slots = 0\<rparr>
          \<and> open_list vm2 [] []
          \<and> heap_upvalues vm2 ! 0 = \<lparr>location = Closed, closed = NUMBER_VAL 5, next = None\<rparr>"
    using o c x by (intro exI [of _ vm2]) (simp add: r bound_defs)
  let ?s = "script_vm [1, 28] [] [NIL_VAL] 2"
  have s: "current_frame ?s = Some \<lparr>closure = 0, ip = 2, slots = 0\<rparr>"
      "stackTop ?s = 2" "frameCount ?s = 1" "open_list ?s [] []"
    by (simp_all add: script_vm_def current_frame_def FRAMES_MAX_def open_list_def)
  have b2: "in_stack (stackTop ?s - 1)"
    by (simp add: s bound_defs)
  have b5: "\<forall>l\<in>set []. slots \<lparr>closure = 0, ip = 2, slots = 0\<rparr> \<le> l \<longrightarrow> in_stack l"
    by simp
  have b6: "0 = length (filter (\<lambda>l. slots \<lparr>closure = 0, ip = 2, slots = 0\<rparr> \<le> l) ([] :: int list))"
    by simp
  from OP_RETURN_exec [OF s(1) b2 refl s(4) b5 b6, of example_host] obtain vm3 where
    o3: "open_list vm3 (drop 0 []) (filter (\<lambda>l. l < slots \<lparr>closure = 0, ip = 2, slots = 0\<rparr>) [])"
    and y: "frameCount ?s = 1 \<and> in_stack (stackTop ?s - 2) \<longrightarrow>
            exec example_host OP_RETURN ?s =
              Some (Return INTERPRET_OK (vm3\<lparr>frameCount := 0, stackTop := stackTop ?s - 2\<rparr>))"
    by blast
  have second: "\<exists>vm2. exec example_host OP_RETURN ?s =
                Some (Return INTERPRET_OK (vm2\<lparr>frameCount := 0, stackTop := 0\<rparr>))
          \<and> open_list vm2 [] []"
    using o3 y by (intro exI [of _ vm3]) (simp add: s bound_defs)
  have "in_stack 2"
    by (simp add: bound_defs)
  then show ?thesis
    using r(1,8) first s(1,4) second by blast
qed

section \<open>Further properties\<close>

lemma stackTrace_lines:
  assumes "n \<le> FRAMES_MAX" and "\<forall>i<n. trace_line vm i = Some (t i)"
  shows "stackTrace vm n = Some (concat (map t (rev [0..<n])))"
  using assms
proof (induction n)
  case 0
  then show ?case by simp
next
  case (Suc n)
  then have rest: "stackTrace vm n = Some (concat (map t (rev [0..<n])))"
    by simp
  have top: "trace_line vm n = Some (t n)"
    using Suc.prems(2) by simp
  have "\<not> FRAMES_MAX \<le> n"
    using Suc.prems(1) by simp
  then show ?case
    using top rest
    by (auto simp: trace_line_def Let_def split: bind_splits option.splits if_splits)
qed

text \<open>
  The report of a runtime error. With at most \<open>FRAMES_MAX\<close> frames active and the
  line \<open>t i\<close> printed for frame \<open>i\<close>, \<open>runtimeError\<close> appends to \<^verbatim>\<open>stderr\<close> the
  message, a newline and the lines of the frames from the topmost one down to frame
  \<open>0\<close>; it empties the operand stack, the frame stack and the list of open upvalues
  and changes nothing else.
\<close>

theorem runtimeError_report:
  assumes "frameCount vm \<le> FRAMES_MAX"
    and "\<forall>i<frameCount vm. trace_line vm i = Some (t i)"
  shows "runtimeError msg vm =
           Some (vm\<lparr>err := err vm @ msg @ ''\<newline>'' @ concat (map t (rev [0..<frameCount vm])),
                    stackTop := 0, frameCount := 0, openUpvalues := None\<rparr>)"
  using stackTrace_lines [OF assms] by (simp add: runtimeError_def resetStack_def)

theorem runtimeError_report_witness:
  "frameCount (call_vm 2 2 []) \<le> FRAMES_MAX
   \<and> trace_line (call_vm 2 2 []) 0 = Some ''[line 3] in script\<newline>''
   \<and> trace_line (call_vm 2 2 []) 1 = Some ''[line 1] in f()\<newline>''
   \<and> runtimeError ''Operand must be a number.'' (call_vm 2 2 []) =
       Some ((call_vm 2 2 [])
         \<lparr>err := ''Operand must be a number.\<newline>[line 1] in f()\<newline>[line 3] in script\<newline>'',
          stackTop := 0, frameCount := 0, openUpvalues := None\<rparr>)"
proof -
  let ?t = "\<lambda>i :: nat. if i = 0 then ''[line 3] in script\<newline>'' else ''[line 1] in f()\<newline>''"
  have t0: "trace_line (call_vm 2 2 []) 0 = Some ''[line 3] in script\<newline>''"
    by (simp add: trace_line_def call_vm_simps script_function_def deref_def show_int_def
        digits.simps)
  have t1: "trace_line (call_vm 2 2 []) 1 = Some ''[line 1] in f()\<newline>''"
    by (simp add: trace_line_def call_vm_simps f_function_def deref_def show_int_def
        digits.simps)
  have n: "frameCount (call_vm 2 2 []) \<le> FRAMES_MAX"
    by (simp add: call_vm_simps FRAMES_MAX_def)
  have "i < 2 \<Longrightarrow> i = 0 \<or> i = 1" for i :: nat
    by auto
  then have l: "\<forall>i<frameCount (call_vm 2 2 []). trace_line (call_vm 2 2 []) i = Some (?t i)"
    using t0 t1 by (auto simp: call_vm_simps)
  have "rev [0..<2] = [1, 0 :: nat]"
    by (simp add: upt_rec)
  then show ?thesis
    using n t0 t1 runtimeError_report [OF n l, of "''Operand must be a number.''"]
    by (simp add: call_vm_simps)
qed

text \<open>
  Addition of two numbers and of two strings. With two values below the stack top,
  \<open>OP_ADD\<close> replaces two numbers by their sum (as the host's addition of doubles
  computes it) and two strings by their concatenation, and the loop goes on.
\<close>

theorem OP_ADD_numbers_strings:
  assumes "in_stack (stackTop vm - 2)" and "in_stack (stackTop vm - 1)"
  shows "(stack vm (stackTop vm - 2) = NUMBER_VAL a \<and> stack vm (stackTop vm - 1) = NUMBER_VAL b \<longrightarrow>
            exec h OP_ADD vm =
              Some (Continue (vm\<lparr>stack := (stack vm)(stackTop vm - 2 := NUMBER_VAL (fadd h a b)),
                                 stackTop := stackTop vm - 1\<rparr>)))
       \<and> (stack vm (stackTop vm - 2) = OBJ_VAL (OBJ_STRING s)
            \<and> stack vm (stackTop vm - 1) = OBJ_VAL (OBJ_STRING t) \<longrightarrow>
            exec h OP_ADD vm =
              Some (Continue (vm\<lparr>stack := (stack vm)
                                   (stackTop vm - 2 := OBJ_VAL (OBJ_STRING (s @ t))),
                                 stackTop := stackTop vm - 1\<rparr>)))"
proof -
  have two: "stackTop vm - 1 - 1 = stackTop vm - 2"
    by simp
  show ?thesis
    using assms
    by (simp add: peek_def pop_def push_def concatenate_def Let_def two)
qed

theorem OP_ADD_numbers_strings_witness:
  "in_stack (stackTop (script_vm [15] [] [NUMBER_VAL 1, NUMBER_VAL 2] 1) - 2)
   \<and> in_stack (stackTop (script_vm [15] [] [NUMBER_VAL 1, NUMBER_VAL 2] 1) - 1)
   \<and> exec example_host OP_ADD (script_vm [15] [] [NUMBER_VAL 1, NUMBER_VAL 2] 1) =
       Some (Continue ((script_vm [15] [] [NUMBER_VAL 1, NUMBER_VAL 2] 1)
         \<lparr>stack := (stack (script_vm [15] [] [NUMBER_VAL 1, NUMBER_VAL 2] 1))(1 := NUMBER_VAL 3),
          stackTop := 2\<rparr>))
   \<and> exec example_host OP_ADD
       (script_vm [15] [] [OBJ_VAL (OBJ_STRING ''st''), OBJ_VAL (OBJ_STRING ''r'')] 1) =
       Some (Continue
         ((script_vm [15] [] [OBJ_VAL (OBJ_STRING ''st''), OBJ_VAL (OBJ_STRING ''r'')] 1)
           \<lparr>stack := (stack (script_vm [15] []
                          [OBJ_VAL (OBJ_STRING ''st''), OBJ_VAL (OBJ_STRING ''r'')] 1))
                        (1 := OBJ_VAL (OBJ_STRING ''str'')),
            stackTop := 2\<rparr>))"
proof -
  let ?n = "script_vm [15] [] [NUMBER_VAL 1, NUMBER_VAL 2] 1"
  let ?s = "script_vm [15] [] [OBJ_VAL (OBJ_STRING ''st''), OBJ_VAL (OBJ_STRING ''r'')] 1"
  have hn: "in_stack (stackTop ?n - 2)" "in_stack (stackTop ?n - 1)"
    and hs: "in_stack (stackTop ?s - 2)" "in_stack (stackTop ?s - 1)"
    by (simp_all add: script_vm_def bound_defs)
  have 1: "exec example_host OP_ADD ?n =
      Some (Continue (?n\<lparr>stack := (stack ?n)(1 := NUMBER_VAL 3), stackTop := 2\<rparr>))"
    using OP_ADD_numbers_strings [OF hn, THEN conjunct1, of 1 2 example_host]
    by (simp add: script_vm_def example_host_def)
  have 2: "exec example_host OP_ADD ?s =
      Some (Continue (?s\<lparr>stack := (stack ?s)(1 := OBJ_VAL (OBJ_STRING ''str'')), stackTop := 2\<rparr>))"
    using OP_ADD_numbers_strings [OF hs, THEN conjunct2, of "''st''" "''r''" example_host]
    by (simp add: script_vm_def)
  show ?thesis
    using hn 1 2 by blast
qed

text \<open>
  From one instruction to the result of \<open>run\<close>: when the byte at the instruction
  pointer decodes to an opcode whose case leaves the loop with a result, \<open>run\<close>
  returns that result; when the case goes on, \<open>run\<close> behaves as on the next state.
\<close>

theorem run_unfolds_one_instruction:
  assumes "READ_BYTE vm = Some (instruction, vm1)"
    and "decode h instruction = Some opc"
  shows "(exec h opc vm1 = Some (Return res vm') \<longrightarrow> run h vm = Some (res, vm'))
       \<and> (exec h opc vm1 = Some (Continue vm') \<longrightarrow> run h vm = run h vm')"
  using assms by (subst run.simps, simp add: step_def)+

lemma unbound_global_exec_example:
  "\<exists>vm'. exec example_host OP_SET_GLOBAL
           ((script_vm [9, 0] [OBJ_VAL (OBJ_STRING ''x'')] [NUMBER_VAL 7] 0)
              \<lparr>frames := (frames (script_vm [9, 0] [OBJ_VAL (OBJ_STRING ''x'')]
                            [NUMBER_VAL 7] 0))(0 := \<lparr>closure = 0, ip = 1, slots = 0\<rparr>)\<rparr>) =
         Some (Return INTERPRET_RUNTIME_ERROR vm')"
  by (simp add: script_vm_def eval_defs tableSet_def tableDelete_def)

theorem run_unfolds_one_instruction_witness:
  "READ_BYTE (script_vm [9, 0] [OBJ_VAL (OBJ_STRING ''x'')] [NUMBER_VAL 7] 0) =
     Some (9, (script_vm [9, 0] [OBJ_VAL (OBJ_STRING ''x'')] [NUMBER_VAL 7] 0)
                \<lparr>frames := (frames (script_vm [9, 0] [OBJ_VAL (OBJ_STRING ''x'')]
                              [NUMBER_VAL 7] 0))(0 := \<lparr>closure = 0, ip = 1, slots = 0\<rparr>)\<rparr>)
   \<and> decode example_host 9 = Some OP_SET_GLOBAL
   \<and> map_option fst (run example_host
         (script_vm [9, 0] [OBJ_VAL (OBJ_STRING ''x'')] [NUMBER_VAL 7] 0)) =
       Some INTERPRET_RUNTIME_ERROR"
proof -
  let ?vm = "script_vm [9, 0] [OBJ_VAL (OBJ_STRING ''x'')] [NUMBER_VAL 7] 0"
  let ?vm1 = "?vm\<lparr>frames := (frames ?vm)(0 := \<lparr>closure = 0, ip = 1, slots = 0\<rparr>)\<rparr>"
  have r: "READ_BYTE ?vm = Some (9, ?vm1)"
    by (simp add: script_vm_def eval_defs fun_eq_iff)
  have d: "decode example_host 9 = Some OP_SET_GLOBAL"
    by (simp add: example_host_def example_decode_def deref_def)
  obtain vm' where e: "exec example_host OP_SET_GLOBAL ?vm1 = Some (Return INTERPRET_RUNTIME_ERROR vm')"
    using unbound_global_exec_example by blast
  have "run example_host ?vm = Some (INTERPRET_RUNTIME_ERROR, vm')"
    using run_unfolds_one_instruction [OF r d, THEN conjunct1] e by blast
  then show ?thesis
    using r d by simp
qed

section \<open>The ordering invariant along the run\<close>

lemma open_sorted_same:
  "open_sorted vm \<Longrightarrow> heap_upvalues vm' = heap_upvalues vm \<Longrightarrow>
   openUpvalues vm' = openUpvalues vm \<Longrightarrow> open_sorted vm'"
  by (auto simp: open_sorted_def open_list_def)

lemma open_sorted_empty: "openUpvalues vm = None \<Longrightarrow> open_sorted vm"
  unfolding open_sorted_def open_list_def
  by (intro exI [of _ "[]"]) simp

lemma uv_path_fields:
  assumes "length heap' = length heap"
    and "\<forall>q<length heap. next (heap' ! q) = next (heap ! q)"
  shows "uv_path heap' a ps b \<longleftrightarrow> uv_path heap a ps b"
  using assms by (induction ps arbitrary: a) auto

lemma open_list_fields:
  assumes "open_list vm ps ls"
    and "openUpvalues vm' = openUpvalues vm"
    and "length (heap_upvalues vm') = length (heap_upvalues vm)"
    and "\<forall>q<length (heap_upvalues vm).
           next (heap_upvalues vm' ! q) = next (heap_upvalues vm ! q)
           \<and> location (heap_upvalues vm' ! q) = location (heap_upvalues vm ! q)"
  shows "open_list vm' ps ls"
proof -
  note f = open_list_facts [OF assms(1)]
  have "uv_path (heap_upvalues vm') (openUpvalues vm') ps None"
    using f(4) assms(2,3,4) uv_path_fields [of "heap_upvalues vm'" "heap_upvalues vm"] by simp
  moreover have "map (\<lambda>p. location (heap_upvalues vm' ! p)) ps = map Slot ls"
  proof -
    have "location (heap_upvalues vm' ! p) = location (heap_upvalues vm ! p)" if "p \<in> set ps" for p
      using f(7) [OF that] assms(4) by simp
    then have "map (\<lambda>p. location (heap_upvalues vm' ! p)) ps
             = map (\<lambda>p. location (heap_upvalues vm ! p)) ps"
      by simp
    then show ?thesis
      using f(5) by simp
  qed
  ultimately show ?thesis
    using f(6) by (simp add: open_list_def)
qed

lemma runtimeError_open_sorted: "runtimeError msg vm = Some vm' \<Longrightarrow> open_sorted vm'"
  by (auto simp: runtimeError_def resetStack_def split: bind_splits intro: open_sorted_empty)

lemma raise_open_sorted: "raise msg res vm = Some r \<Longrightarrow> open_sorted (result_vm r)"
  by (auto simp: raise_def split: bind_splits dest: runtimeError_open_sorted)

lemma push_same:
  "push v vm = Some vm' \<Longrightarrow>
   heap_upvalues vm' = heap_upvalues vm \<and> openUpvalues vm' = openUpvalues vm"
  by (auto simp: push_def split: if_splits)

lemma pop_same:
  "pop vm = Some (v, vm') \<Longrightarrow>
   heap_upvalues vm' = heap_upvalues vm \<and> openUpvalues vm' = openUpvalues vm"
  by (auto simp: pop_def Let_def split: if_splits)

lemma READ_BYTE_same:
  "READ_BYTE vm = Some (b, vm') \<Longrightarrow>
   heap_upvalues vm' = heap_upvalues vm \<and> openUpvalues vm' = openUpvalues vm"
  by (auto simp: READ_BYTE_def set_frame_def split: bind_splits)

lemma READ_SHORT_same:
  "READ_SHORT vm = Some (n, vm') \<Longrightarrow>
   heap_upvalues vm' = heap_upvalues vm \<and> openUpvalues vm' = openUpvalues vm"
  by (auto simp: READ_SHORT_def set_frame_def split: bind_splits)

lemma READ_CONSTANT_same:
  "READ_CONSTANT vm = Some (c, vm') \<Longrightarrow>
   heap_upvalues vm' = heap_upvalues vm \<and> openUpvalues vm' = openUpvalues vm"
  by (auto simp: READ_CONSTANT_def split: bind_splits dest: READ_BYTE_same)

lemma READ_STRING_same:
  "READ_STRING vm = Some (c, vm') \<Longrightarrow>
   heap_upvalues vm' = heap_upvalues vm \<and> openUpvalues vm' = openUpvalues vm"
  by (auto simp: READ_STRING_def split: bind_splits dest: READ_CONSTANT_same)

lemma push_open_sorted: "open_sorted vm \<Longrightarrow> push v vm = Some vm' \<Longrightarrow> open_sorted vm'"
  using open_sorted_same push_same by blast

lemma pop_open_sorted: "open_sorted vm \<Longrightarrow> pop vm = Some (v, vm') \<Longrightarrow> open_sorted vm'"
  using open_sorted_same pop_same by blast

lemma READ_BYTE_open_sorted:
  "open_sorted vm \<Longrightarrow> READ_BYTE vm = Some (b, vm') \<Longrightarrow> open_sorted vm'"
  using open_sorted_same READ_BYTE_same by blast

lemma READ_SHORT_open_sorted:
  "open_sorted vm \<Longrightarrow> READ_SHORT vm = Some (n, vm') \<Longrightarrow> open_sorted vm'"
  using open_sorted_same READ_SHORT_same by blast

lemma READ_CONSTANT_open_sorted:
  "open_sorted vm \<Longrightarrow> READ_CONSTANT vm = Some (c, vm') \<Longrightarrow> open_sorted vm'"
  using open_sorted_same READ_CONSTANT_same by blast

lemma READ_STRING_open_sorted:
  "open_sorted vm \<Longrightarrow> READ_STRING vm = Some (c, vm') \<Longrightarrow> open_sorted vm'"
  using open_sorted_same READ_STRING_same by blast

lemma closeUpvalues_open_sorted:
  assumes "open_list vm ps ls" and "closeUpvalues limit vm = Some vm'"
  shows "open_sorted vm'"
  using assms
proof (induction ps arbitrary: vm ls)
  case Nil
  then have "openUpvalues vm = None"
    by (simp add: open_list_def)
  then have "closeUpvalues limit vm = Some vm"
    by (subst closeUpvalues.simps) simp
  with Nil show ?case
    by (auto simp: open_sorted_def)
next
  case (Cons p ps)
  note f = open_list_facts [OF Cons.prems(1)]
  from f(1) obtain l ls' where ls: "ls = l # ls'"
    by (cases ls) auto
  let ?heap = "heap_upvalues vm"
  let ?u = "?heap ! p"
  have hd: "openUpvalues vm = Some p" and p: "p < length ?heap"
    and path: "uv_path ?heap (next ?u) ps None"
    using f(4) by simp_all
  have l: "location ?u = Slot l" and rest: "map (\<lambda>q. location (?heap ! q)) ps = map Slot ls'"
    using f(5) by (simp_all add: ls)
  have pps: "p \<notin> set ps" and sorted: "sorted_wrt (>) ls'"
    using f(2,6) by (simp_all add: ls)
  show ?case
  proof (cases "limit \<le> l")
    case True
    let ?vm1 = "vm\<lparr>heap_upvalues := ?heap[p := ?u\<lparr>closed := stack vm l, location := Closed\<rparr>],
                    openUpvalues := next ?u\<rparr>"
    have step: "closeUpvalues limit vm = (if in_stack l then closeUpvalues limit ?vm1 else None)"
      using hd p l True by (subst closeUpvalues.simps) (simp add: deref_def)
    with Cons.prems(2) have r: "closeUpvalues limit ?vm1 = Some vm'"
      by (simp split: if_splits)
    have "location (heap_upvalues ?vm1 ! q) = location (?heap ! q)" if "q \<in> set ps" for q
    proof -
      from that pps have "p \<noteq> q"
        by blast
      then show ?thesis
        by simp
    qed
    then have "map (\<lambda>q. location (heap_upvalues ?vm1 ! q)) ps = map (\<lambda>q. location (?heap ! q)) ps"
      by simp
    then have "map (\<lambda>q. location (heap_upvalues ?vm1 ! q)) ps = map Slot ls'"
      using rest by simp
    then have "open_list ?vm1 ps ls'"
      using path pps sorted by (simp add: open_list_def uv_path_update)
    then show ?thesis
      using r by (rule Cons.IH)
  next
    case False
    have "closeUpvalues limit vm = Some vm"
      using hd p l False by (subst closeUpvalues.simps) (simp add: deref_def)
    with Cons.prems show ?thesis
      by (auto simp: open_sorted_def)
  qed
qed

lemma captureUpvalue_open_sorted:
  assumes "open_sorted vm" and "captureUpvalue local vm = Some (p, vm')"
  shows "open_sorted vm'"
proof -
  from assms(1) obtain ps ls where o: "open_list vm ps ls"
    by (auto simp: open_sorted_def)
  show ?thesis
  proof (cases "local \<in> set ls")
    case True
    from captureUpvalue_found [OF o True] assms show ?thesis
      by simp
  next
    case False
    define k where "k = capture_index local ls"
    define n where "n = length (heap_upvalues vm)"
    define node where "node = \<lparr>location = Slot local, closed = NIL_VAL,
                                 next = (if k < length ps then Some (ps ! k) else None)\<rparr>"
    define heap1 where "heap1 = heap_upvalues vm @ [node]"
    define vm1 where "vm1 = (if k = 0 then vm\<lparr>heap_upvalues := heap1, openUpvalues := Some n\<rparr>
                    else vm\<lparr>heap_upvalues :=
                              heap1[ps ! (k - 1) := (heap1 ! (ps ! (k - 1)))\<lparr>next := Some n\<rparr>]\<rparr>)"
    have "captureUpvalue local vm = Some (n, vm1)"
      using o False k_def n_def node_def heap1_def vm1_def by (rule captureUpvalue_new)
    moreover have "open_list vm1 (take k ps @ n # drop k ps) (take k ls @ local # drop k ls)"
      using o False k_def n_def node_def heap1_def vm1_def by (rule open_list_insert)
    ultimately show ?thesis
      using assms(2) by (auto simp: open_sorted_def)
  qed
qed

lemma open_sorted_update:
  "open_sorted (vm\<lparr>frames := fr\<rparr>) = open_sorted vm"
  "open_sorted (vm\<lparr>frameCount := n\<rparr>) = open_sorted vm"
  "open_sorted (vm\<lparr>stack := st\<rparr>) = open_sorted vm"
  "open_sorted (vm\<lparr>stackTop := tp\<rparr>) = open_sorted vm"
  "open_sorted (vm\<lparr>globals := g\<rparr>) = open_sorted vm"
  "open_sorted (vm\<lparr>heap_closures := cs\<rparr>) = open_sorted vm"
  "open_sorted (vm\<lparr>out := ou\<rparr>) = open_sorted vm"
  "open_sorted (vm\<lparr>err := er\<rparr>) = open_sorted vm"
  by (simp_all add: open_sorted_def open_list_def)

lemma fillUpvalue_open_sorted:
  assumes "open_sorted vm" and "fillUpvalue c i vm = Some vm'"
  shows "open_sorted vm'"
  using assms unfolding fillUpvalue_def
  apply (clarsimp simp: bind_eq_Some_conv open_sorted_update split: if_splits)
   apply (blast dest: READ_BYTE_open_sorted)
  apply (thin_tac "_ \<longrightarrow> _")
  apply (blast dest: READ_BYTE_open_sorted captureUpvalue_open_sorted)
  done

lemma fillUpvalues_open_sorted:
  "open_sorted vm \<Longrightarrow> fillUpvalues c i n vm = Some vm' \<Longrightarrow> open_sorted vm'"
proof (induction n arbitrary: i vm)
  case 0
  then show ?case by simp
next
  case (Suc n)
  from Suc.prems(2) obtain vm1 where "fillUpvalue c i vm = Some vm1"
    and "fillUpvalues c (i + 1) n vm1 = Some vm'"
    by (auto split: bind_splits)
  then show ?case
    using Suc.prems(1) Suc.IH fillUpvalue_open_sorted by blast
qed

lemma push_keeps: "push v vm = Some vm' \<Longrightarrow> open_sorted vm \<longrightarrow> open_sorted vm'"
  using push_open_sorted by blast

lemma pop_keeps: "pop vm = Some (v, vm') \<Longrightarrow> open_sorted vm \<longrightarrow> open_sorted vm'"
  using pop_open_sorted by blast

lemma READ_BYTE_keeps:
  "READ_BYTE vm = Some (b, vm') \<Longrightarrow> open_sorted vm \<longrightarrow> open_sorted vm'"
  using READ_BYTE_open_sorted by blast

lemma READ_SHORT_keeps:
  "READ_SHORT vm = Some (n, vm') \<Longrightarrow> open_sorted vm \<longrightarrow> open_sorted vm'"
  using READ_SHORT_open_sorted by blast

lemma READ_CONSTANT_keeps:
  "READ_CONSTANT vm = Some (c, vm') \<Longrightarrow> open_sorted vm \<longrightarrow> open_sorted vm'"
  using READ_CONSTANT_open_sorted by blast

lemma READ_STRING_keeps:
  "READ_STRING vm = Some (c, vm') \<Longrightarrow> open_sorted vm \<longrightarrow> open_sorted vm'"
  using READ_STRING_open_sorted by blast

lemma concatenate_open_sorted:
  "open_sorted vm \<Longrightarrow> concatenate vm = Some vm' \<Longrightarrow> open_sorted vm'"
  unfolding concatenate_def
  by (auto simp: bind_eq_Some_conv dest!: pop_same push_same intro: open_sorted_same)

lemma BINARY_OP_open_sorted:
  "open_sorted vm \<Longrightarrow> BINARY_OP f vm = Some r \<Longrightarrow> open_sorted (result_vm r)"
  unfolding BINARY_OP_def
  by (auto simp: bind_eq_Some_conv split: if_splits
      dest!: pop_same push_same raise_open_sorted intro: open_sorted_same)

lemma call_open_sorted:
  "open_sorted vm \<Longrightarrow> call c argCount vm = Some (ok, vm') \<Longrightarrow> open_sorted vm'"
  unfolding call_def
  by (auto simp: bind_eq_Some_conv Let_def open_sorted_update split: if_splits
      dest!: runtimeError_open_sorted)

lemma call_keeps:
  "call c argCount vm = Some (ok, vm') \<Longrightarrow> open_sorted vm \<longrightarrow> open_sorted vm'"
  using call_open_sorted by blast

lemma callValue_open_sorted:
  "open_sorted vm \<Longrightarrow> callValue h callee argCount vm = Some (ok, vm') \<Longrightarrow> open_sorted vm'"
  unfolding callValue_def
  by (auto simp: bind_eq_Some_conv Let_def open_sorted_update
      split: Value.splits Obj.splits
      dest!: runtimeError_open_sorted call_keeps push_keeps)

lemma newClosure_open_sorted:
  "open_sorted vm \<Longrightarrow> newClosure f vm = Some (c, vm') \<Longrightarrow> open_sorted vm'"
  unfolding newClosure_def
  by (auto simp: bind_eq_Some_conv open_sorted_update)

lemma write_location_open_sorted:
  assumes "open_sorted vm" and "deref (heap_upvalues vm) p = Some u"
    and "write_location p u v vm = Some vm'"
  shows "open_sorted vm'"
proof (cases "location u")
  case (Slot i)
  with assms show ?thesis
    by (auto simp: write_location_def open_sorted_update split: if_splits)
next
  case Closed
  from assms(1) obtain ps ls where o: "open_list vm ps ls"
    by (auto simp: open_sorted_def)
  have u: "p < length (heap_upvalues vm)" "u = heap_upvalues vm ! p"
    using assms(2) by (auto simp: deref_def split: if_splits)
  have vm': "vm' = vm\<lparr>heap_upvalues := (heap_upvalues vm)[p := u\<lparr>closed := v\<rparr>]\<rparr>"
    using assms(3) Closed by (simp add: write_location_def)
  have "open_list vm' ps ls"
    using o
  proof (rule open_list_fields)
    show "openUpvalues vm' = openUpvalues vm"
      by (simp add: vm')
    show "length (heap_upvalues vm') = length (heap_upvalues vm)"
      by (simp add: vm')
    show "\<forall>q<length (heap_upvalues vm).
            next (heap_upvalues vm' ! q) = next (heap_upvalues vm ! q)
            \<and> location (heap_upvalues vm' ! q) = location (heap_upvalues vm ! q)"
      using u by (simp add: vm' nth_list_update)
  qed
  then show ?thesis
    by (auto simp: open_sorted_def)
qed

lemma closeUpvalues_keeps_open_sorted:
  "open_sorted vm \<Longrightarrow> closeUpvalues limit vm = Some vm' \<Longrightarrow> open_sorted vm'"
  using closeUpvalues_open_sorted by (auto simp: open_sorted_def)

lemma concatenate_keeps:
  "concatenate vm = Some vm' \<Longrightarrow> open_sorted vm \<longrightarrow> open_sorted vm'"
  using concatenate_open_sorted by blast

lemma callValue_keeps:
  "callValue h callee argCount vm = Some (ok, vm') \<Longrightarrow> open_sorted vm \<longrightarrow> open_sorted vm'"
  using callValue_open_sorted by blast

lemma newClosure_keeps:
  "newClosure f vm = Some (c, vm') \<Longrightarrow> open_sorted vm \<longrightarrow> open_sorted vm'"
  using newClosure_open_sorted by blast

lemma fillUpvalues_keeps:
  "fillUpvalues c i n vm = Some vm' \<Longrightarrow> open_sorted vm \<longrightarrow> open_sorted vm'"
  using fillUpvalues_open_sorted by blast

lemma closeUpvalues_keeps:
  "closeUpvalues limit vm = Some vm' \<Longrightarrow> open_sorted vm \<longrightarrow> open_sorted vm'"
  using closeUpvalues_keeps_open_sorted by blast

lemma write_location_keeps:
  "write_location p u v vm = Some vm' \<Longrightarrow>
   deref (heap_upvalues vm) p = Some u \<longrightarrow> open_sorted vm \<longrightarrow> open_sorted vm'"
  using write_location_open_sorted by blast

lemmas keeps =
  push_keeps pop_keeps READ_BYTE_keeps READ_SHORT_keeps READ_CONSTANT_keeps READ_STRING_keeps
  concatenate_keeps callValue_keeps newClosure_keeps fillUpvalues_keeps closeUpvalues_keeps
  write_location_keeps

lemma exec_open_sorted:
  assumes "open_sorted vm" and "exec h opc vm = Some r"
  shows "open_sorted (result_vm r)"
proof (cases opc)
  case OP_CONSTANT
  with assms show ?thesis
    by (auto simp: bind_eq_Some_conv Let_def raise_def tableSet_def set_frame_def
        open_sorted_update split: if_splits option.splits prod.splits
        dest!: keeps runtimeError_open_sorted)
next
  case OP_NIL
  with assms show ?thesis
    by (auto simp: bind_eq_Some_conv Let_def raise_def tableSet_def set_frame_def
        open_sorted_update split: if_splits option.splits prod.splits
        dest!: keeps runtimeError_open_sorted)
next
  case OP_TRUE
  with assms show ?thesis
    by (auto simp: bind_eq_Some_conv Let_def raise_def tableSet_def set_frame_def
        open_sorted_update split: if_splits option.splits prod.splits
        dest!: keeps runtimeError_open_sorted)
next
  case OP_FALSE
  with assms show ?thesis
    by (auto simp: bind_eq_Some_conv Let_def raise_def tableSet_def set_frame_def
        open_sorted_update split: if_splits option.splits prod.splits
        dest!: keeps runtimeError_open_sorted)
next
  case OP_POP
  with assms show ?thesis
    by (auto simp: bind_eq_Some_conv Let_def raise_def tableSet_def set_frame_def
        open_sorted_update split: if_splits option.splits prod.splits
        dest!: keeps runtimeError_open_sorted)
next
  case OP_GET_LOCAL
  with assms show ?thesis
    by (auto simp: bind_eq_Some_conv Let_def raise_def tableSet_def set_frame_def
        open_sorted_update split: if_splits option.splits prod.splits
        dest!: keeps runtimeError_open_sorted)
next
  case OP_SET_LOCAL
  with assms show ?thesis
    by (auto simp: bind_eq_Some_conv Let_def raise_def tableSet_def set_frame_def
        open_sorted_update split: if_splits option.splits prod.splits
        dest!: keeps runtimeError_open_sorted)
next
  case OP_GET_GLOBAL
  with assms show ?thesis
    by (auto simp: bind_eq_Some_conv Let_def raise_def tableSet_def set_frame_def
        open_sorted_update split: if_splits option.splits prod.splits
        dest!: keeps runtimeError_open_sorted)
next
  case OP_DEFINE_GLOBAL
  with assms show ?thesis
    by (auto simp: bind_eq_Some_conv Let_def raise_def tableSet_def set_frame_def
        open_sorted_update split: if_splits option.splits prod.splits
        dest!: keeps runtimeError_open_sorted)
next
  case OP_SET_GLOBAL
  with assms show ?thesis
    by (auto simp: bind_eq_Some_conv Let_def raise_def tableSet_def set_frame_def
        open_sorted_update split: if_splits option.splits prod.splits
        dest!: keeps runtimeError_open_sorted)
next
  case OP_GET_UPVALUE
  with assms show ?thesis
    by (auto simp: bind_eq_Some_conv Let_def raise_def tableSet_def set_frame_def
        open_sorted_update split: if_splits option.splits prod.splits
        dest!: keeps runtimeError_open_sorted)
next
  case OP_SET_UPVALUE
  with assms show ?thesis
    by (auto simp: bind_eq_Some_conv Let_def raise_def tableSet_def set_frame_def
        open_sorted_update split: if_splits option.splits prod.splits
        dest!: keeps runtimeError_open_sorted)
next
  case OP_EQUAL
  with assms show ?thesis
    by (auto simp: bind_eq_Some_conv Let_def raise_def tableSet_def set_frame_def
        open_sorted_update split: if_splits option.splits prod.splits
        dest!: keeps runtimeError_open_sorted)
next
  case OP_GREATER
  with assms show ?thesis
    by (auto dest: BINARY_OP_open_sorted)
next
  case OP_LESS
  with assms show ?thesis
    by (auto dest: BINARY_OP_open_sorted)
next
  case OP_ADD
  with assms show ?thesis
    by (auto simp: bind_eq_Some_conv Let_def raise_def tableSet_def set_frame_def
        open_sorted_update split: if_splits option.splits prod.splits
        dest!: keeps runtimeError_open_sorted)
next
  case OP_SUBTRACT
  with assms show ?thesis
    by (auto dest: BINARY_OP_open_sorted)
next
  case OP_MULTIPLY
  with assms show ?thesis
    by (auto dest: BINARY_OP_open_sorted)
next
  case OP_DIVIDE
  with assms show ?thesis
    by (auto dest: BINARY_OP_open_sorted)
next
  case OP_NOT
  with assms show ?thesis
    by (auto simp: bind_eq_Some_conv Let_def raise_def tableSet_def set_frame_def
        open_sorted_update split: if_splits option.splits prod.splits
        dest!: keeps runtimeError_open_sorted)
next
  case OP_NEGATE
  with assms show ?thesis
    by (auto simp: bind_eq_Some_conv Let_def raise_def tableSet_def set_frame_def
        open_sorted_update split: if_splits option.splits prod.splits
        dest!: keeps runtimeError_open_sorted)
next
  case OP_PRINT
  with assms show ?thesis
    by (auto simp: bind_eq_Some_conv Let_def raise_def tableSet_def set_frame_def
        open_sorted_update split: if_splits option.splits prod.splits
        dest!: keeps runtimeError_open_sorted)
next
  case OP_JUMP
  with assms show ?thesis
    by (auto simp: bind_eq_Some_conv Let_def raise_def tableSet_def set_frame_def
        open_sorted_update split: if_splits option.splits prod.splits
        dest!: keeps runtimeError_open_sorted)
next
  case OP_JUMP_IF_FALSE
  with assms show ?thesis
    by (auto simp: bind_eq_Some_conv Let_def raise_def tableSet_def set_frame_def
        open_sorted_update split: if_splits option.splits prod.splits
        dest!: keeps runtimeError_open_sorted)
next
  case OP_LOOP
  with assms show ?thesis
    by (auto simp: bind_eq_Some_conv Let_def raise_def tableSet_def set_frame_def
        open_sorted_update split: if_splits option.splits prod.splits
        dest!: keeps runtimeError_open_sorted)
next
  case OP_CALL
  with assms show ?thesis
    by (auto simp: bind_eq_Some_conv Let_def raise_def tableSet_def set_frame_def
        open_sorted_update split: if_splits option.splits prod.splits
        dest!: keeps runtimeError_open_sorted)
next
  case OP_CLOSURE
  with assms show ?thesis
    by (auto simp: bind_eq_Some_conv Let_def raise_def tableSet_def set_frame_def
        open_sorted_update split: if_splits option.splits prod.splits
        dest!: keeps runtimeError_open_sorted)
next
  case OP_CLOSE_UPVALUE
  with assms show ?thesis
    by (auto simp: bind_eq_Some_conv Let_def raise_def tableSet_def set_frame_def
        open_sorted_update split: if_splits option.splits prod.splits
        dest!: keeps runtimeError_open_sorted)
next
  case OP_RETURN
  with assms show ?thesis
    by (auto simp: bind_eq_Some_conv Let_def raise_def tableSet_def set_frame_def
        open_sorted_update split: if_splits option.splits prod.splits
        dest!: keeps runtimeError_open_sorted)
qed

lemma step_open_sorted:
  "open_sorted vm \<Longrightarrow> step h vm = Some r \<Longrightarrow> open_sorted (result_vm r)"
  unfolding step_def
  by (auto simp: bind_eq_Some_conv split: option.splits
      dest!: READ_BYTE_keeps dest: exec_open_sorted)

lemma run_open_sorted:
  assumes "run h vm = Some y"
  shows "open_sorted vm \<longrightarrow> open_sorted (snd y)"
proof (rule run.raw_induct [where P = "\<lambda>h vm y. open_sorted vm \<longrightarrow> open_sorted (snd y)",
      OF _ assms])
  fix run' :: "host \<Rightarrow> VM \<Rightarrow> (InterpretResult \<times> VM) option"
    and h :: host and vm :: VM and y :: "InterpretResult \<times> VM"
  assume IH: "\<And>h vm y. run' h vm = Some y \<Longrightarrow> open_sorted vm \<longrightarrow> open_sorted (snd y)"
    and b: "step h vm \<bind> (\<lambda>r. case r of Continue vm' \<Rightarrow> run' h vm'
                                  | Return res vm' \<Rightarrow> Some (res, vm')) = Some y"
  show "open_sorted vm \<longrightarrow> open_sorted (snd y)"
  proof
    assume o: "open_sorted vm"
    from b obtain r where r: "step h vm = Some r"
      and y: "(case r of Continue vm' \<Rightarrow> run' h vm' | Return res vm' \<Rightarrow> Some (res, vm')) = Some y"
      by (auto simp: bind_eq_Some_conv)
    from o r have "open_sorted (result_vm r)"
      by (rule step_open_sorted)
    with y IH show "open_sorted (snd y)"
      by (cases r) auto
  qed
qed

text \<open>
  Every instruction keeps the order of the open-upvalue list: when the list is a
  list of open upvalues with strictly descending slots before an iteration of the loop
  of \<open>run\<close>, and the iteration has defined behaviour, the list is such a list after
  it, whether the loop goes on or \<open>run\<close> returns.
\<close>

theorem step_keeps_open_sorted:
  assumes "open_sorted vm" and "step h vm = Some r"
  shows "open_sorted (result_vm r)"
  using assms by (rule step_open_sorted)

theorem step_keeps_open_sorted_witness:
  "open_sorted upvalue_vm
   \<and> (\<exists>vm'. step example_host upvalue_vm = Some (Continue vm') \<and> stackTop vm' = 5
        \<and> open_sorted vm')"
proof -
  have o: "open_sorted upvalue_vm"
    using upvalue_vm_open_list by (auto simp: open_sorted_def)
  obtain vm' where s: "step example_host upvalue_vm = Some (Continue vm')"
    and t: "stackTop vm' = 5"
    by (simp add: upvalue_vm_def script_vm_def eval_defs)
  from step_keeps_open_sorted [OF o s] have "open_sorted vm'"
    by simp
  with o s t show ?thesis
    by blast
qed

text \<open>
  A call of \<open>interpret\<close> that returns keeps the order of the open-upvalue list:
  from a machine whose list is in descending order, the machine that \<open>run\<close> leaves
  has its list in descending order.
\<close>

theorem interpret_keeps_open_sorted:
  assumes "open_sorted vm" and "interpret' h compiled vm = Some (res, vm')"
  shows "open_sorted vm'"
proof (cases compiled)
  case None
  with assms show ?thesis
    by (simp add: interpret'_def)
next
  case (Some f)
  with assms(2) obtain vm5 where "open_sorted vm \<longrightarrow> open_sorted vm5"
    and "run h vm5 = Some (res, vm')"
    by (auto simp: interpret'_def bind_eq_Some_conv
        dest!: push_keeps pop_keeps newClosure_keeps call_keeps)
  with assms(1) run_open_sorted [of h vm5 "(res, vm')"] show ?thesis
    by simp
qed

theorem interpret_keeps_open_sorted_witness:
  "open_sorted (compiled_vm [add_nil_script])
   \<and> (\<exists>vm'. interpret' example_host (Some 0) (compiled_vm [add_nil_script])
               = Some (INTERPRET_COMPILE_ERROR, vm')
        \<and> open_sorted vm')"
proof -
  have o: "open_sorted (compiled_vm [add_nil_script])"
    by (rule open_sorted_empty) (simp add: compiled_vm_def)
  have "case interpret' example_host (Some 0) (compiled_vm [add_nil_script]) of
          None \<Rightarrow> False | Some (res, vm') \<Rightarrow> res = INTERPRET_COMPILE_ERROR"
    by code_simp
  then obtain vm' where s: "interpret' example_host (Some 0) (compiled_vm [add_nil_script])
      = Some (INTERPRET_COMPILE_ERROR, vm')"
    by (auto split: option.splits)
  from interpret_keeps_open_sorted [OF o s] o s show ?thesis
    by blast
qed

end
